theory Spec2Isabelle
  imports Complex_Main
begin

section \<open>Data model\<close>

text \<open>
  The optimizer of \<^verbatim>\<open>consav/newton_raphson.py\<close> works on NumPy arrays that are
  passed by reference and written in place. A one-dimensional array is a list of numbers
  living in a heap at an address; a Python variable holding an array holds the address.
  A full slice \<^verbatim>\<open>x[:]\<close> on the right-hand side of a plain assignment is a view on the
  same buffer, so it is the same address; a slice assignment \<^verbatim>\<open>a[:] = b[:]\<close> copies
  the contents of one buffer into the other.

  Floating-point numbers are modelled as real numbers: rounding, infinities and NaN are
  outside the model.

  An operation on two arrays, entry by entry, is \<open>map2\<close>. NumPy wants the two sizes to
  agree, where \<open>map2\<close> cuts the longer list; a write \<^verbatim>\<open>a[i] = v\<close> wants \<open>i\<close> in
  range, where a list update beyond the end does nothing. In a run of the optimizer all
  buffers have the size of the initial guess and every index is below it (\<open>dims\<close> below
  is an invariant of the loop), so the two readings never part.
\<close>

type_synonym addr = nat
type_synonym ndarray = "real list"
type_synonym matrix = "ndarray list"

text \<open>
  The memory of a run: the heap of one-dimensional arrays, and the log of the points at
  which the objective has been evaluated, oldest first. The log is an observation of the
  calls \<^verbatim>\<open>obj(x,*args)\<close>; no operation reads it.
\<close>

record mem =
  heap :: "ndarray list"
  evals :: "ndarray list"

datatype error = LinAlgError | ValueError

definition rd :: "mem \<Rightarrow> addr \<Rightarrow> ndarray" where
  "rd s a = heap s ! a"

text \<open>\<^verbatim>\<open>a[i] = v\<close>\<close>

definition wr :: "addr \<Rightarrow> nat \<Rightarrow> real \<Rightarrow> mem \<Rightarrow> mem" where
  "wr a i v s = s\<lparr>heap := (heap s)[a := (heap s ! a)[i := v]]\<rparr>"

text \<open>\<^verbatim>\<open>a[:] = v\<close> for an array value \<open>v\<close> of the same length\<close>

definition wr_all :: "addr \<Rightarrow> ndarray \<Rightarrow> mem \<Rightarrow> mem" where
  "wr_all a v s = s\<lparr>heap := (heap s)[a := v]\<rparr>"

text \<open>\<^verbatim>\<open>np.zeros(n)\<close>: a fresh buffer, at the first address not yet in use\<close>

definition zeros :: "nat \<Rightarrow> mem \<Rightarrow> addr \<times> mem" where
  "zeros n s = (length (heap s), s\<lparr>heap := heap s @ [replicate n 0]\<rparr>)"

text \<open>
  \<^verbatim>\<open>obj(a,*args)\<close>: the objective reads the buffer at \<open>a\<close> as it is at the time of the
  call. The auxiliary arguments are fixed for a run and are part of \<open>obj\<close>.
\<close>

definition call_obj :: "(ndarray \<Rightarrow> real) \<Rightarrow> addr \<Rightarrow> mem \<Rightarrow> real \<times> mem" where
  "call_obj obj a s = (obj (rd s a), s\<lparr>evals := evals s @ [rd s a]\<rparr>)"

section \<open>The gradient estimator\<close>

text \<open>\<^verbatim>\<open>step_now = np.fmax(grad_step*xi,grad_step)\<close>\<close>

definition step_now :: "real \<Rightarrow> real \<Rightarrow> real" where
  "step_now grad_step xi = max (grad_step * xi) grad_step"

text \<open>
  One pass of the loop of \<^verbatim>\<open>num_grad\<close>, for the index \<open>i\<close>. The assignment
  \<^verbatim>\<open>x_grad = x[:]\<close> rebinds the local name \<^verbatim>\<open>x_grad\<close> to a view on \<^verbatim>\<open>x\<close>;
  the working memory passed in by the caller is not used.

  The quotient is the quotient of real numbers, which has a value for the divisor zero
  too. The compiled code raises \<^verbatim>\<open>ZeroDivisionError\<close> when \<^verbatim>\<open>step_now\<close> is zero, which
  needs a base step that is zero or negative: for such a base step the model is not the
  code. A statement about how a call ends assumes a positive base step.
\<close>

definition num_grad_body ::
  "(ndarray \<Rightarrow> real) \<Rightarrow> addr \<Rightarrow> real \<Rightarrow> real \<Rightarrow> addr \<Rightarrow> nat \<Rightarrow> mem \<Rightarrow> mem" where
  "num_grad_body obj x grad_step f0 grad i s =
     (let xi = rd s x ! i;
          step = step_now grad_step xi;
          x_grad = x;
          s1 = wr x_grad i (xi + step) s;
          (fx, s2) = call_obj obj x_grad s1
      in wr grad i ((fx - f0) / step) s2)"

text \<open>\<^verbatim>\<open>num_grad(obj,x,grad_step,f0,grad,x_grad,*args)\<close>\<close>

definition num_grad ::
  "(ndarray \<Rightarrow> real) \<Rightarrow> addr \<Rightarrow> real \<Rightarrow> real \<Rightarrow> addr \<Rightarrow> addr \<Rightarrow> mem \<Rightarrow> mem" where
  "num_grad obj x grad_step f0 grad x_grad s =
     fold (num_grad_body obj x grad_step f0 grad) [0..<length (rd s x)] s"

section \<open>The Hessian estimator\<close>

text \<open>\<^verbatim>\<open>hess[:,i] = v\<close>: entry \<open>i\<close> of each row is replaced by the entry of \<open>v\<close> for that row\<close>

definition set_col :: "nat \<Rightarrow> ndarray \<Rightarrow> matrix \<Rightarrow> matrix" where
  "set_col i v hess = map2 (\<lambda>row a. row[i := a]) hess v"

text \<open>
  One pass of the loop of \<^verbatim>\<open>num_hess\<close>, for the index \<open>i\<close>. Here the baseline is
  copied into the working memory: \<^verbatim>\<open>x_hess[:] = x[:]\<close>. The matrix \<^verbatim>\<open>hess\<close> is the
  only two-dimensional array of the program and no other name refers to it, so it is
  passed along as a value.
\<close>

definition num_hess_body ::
  "(ndarray \<Rightarrow> real) \<Rightarrow> addr \<Rightarrow> real \<Rightarrow> addr \<Rightarrow> addr \<Rightarrow> addr \<Rightarrow> addr \<Rightarrow> nat
     \<Rightarrow> matrix \<times> mem \<Rightarrow> matrix \<times> mem" where
  "num_hess_body obj x grad_step grad x_grad x_hess grad_hess i = (\<lambda>(hess, s).
     (let xi = rd s x ! i;
          step = step_now grad_step xi;
          s1 = wr_all x_hess (rd s x) s;
          s2 = wr x_hess i (xi + step) s1;
          (f0, s3) = call_obj obj x_hess s2;
          s4 = num_grad obj x_hess grad_step f0 grad_hess x_grad s3
      in (set_col i (map2 (\<lambda>a b. (a - b) / step) (rd s4 grad_hess) (rd s4 grad)) hess, s4)))"

text \<open>\<^verbatim>\<open>num_hess(obj,x,grad_step,grad,hess,x_grad,x_hess,grad_hess,*args)\<close>\<close>

definition num_hess ::
  "(ndarray \<Rightarrow> real) \<Rightarrow> addr \<Rightarrow> real \<Rightarrow> addr \<Rightarrow> matrix \<Rightarrow> addr \<Rightarrow> addr \<Rightarrow> addr
     \<Rightarrow> mem \<Rightarrow> matrix \<times> mem" where
  "num_hess obj x grad_step grad hess x_grad x_hess grad_hess s =
     fold (num_hess_body obj x grad_step grad x_grad x_hess grad_hess)
       [0..<length (rd s x)] (hess, s)"

section \<open>The optimizer\<close>

text \<open>
  The values that \<^verbatim>\<open>create_optimizer\<close> binds into the closure \<^verbatim>\<open>newton_raphson\<close>.
  \<^verbatim>\<open>max_iter\<close> is a Python integer. The compiled closure holds it as a signed 64-bit
  integer, so the model is the code for the values below \<open>2\<^sup>6\<^sup>3\<close> only. A statement
  about the number of passes assumes such a value.
\<close>

record optimizer =
  obj :: "ndarray \<Rightarrow> real"
  max_iter :: int
  grad_step :: real
  tol_fun :: real
  tol_x :: real

definition create_optimizer ::
  "(ndarray \<Rightarrow> real) \<Rightarrow> int \<Rightarrow> real \<Rightarrow> real \<Rightarrow> real \<Rightarrow> optimizer" where
  "create_optimizer ob mi gs tf tx =
     \<lparr>obj = ob, max_iter = mi, grad_step = gs, tol_fun = tf, tol_x = tx\<rparr>"

text \<open>
  \<^verbatim>\<open>np.linalg.det\<close> and \<^verbatim>\<open>np.linalg.inv\<close> are library code, parameters of the model.
  The inverse is allowed to fail, as the library's does on a singular matrix.
\<close>

record linalg =
  linalg_det :: "matrix \<Rightarrow> real"
  linalg_inv :: "matrix \<Rightarrow> error + matrix"

text \<open>
  The local variables of \<^verbatim>\<open>newton_raphson\<close> that live across iterations: the six
  buffers (as addresses), the matrix and the best value so far.
\<close>

record locals =
  x_min :: addr
  x_now :: addr
  x_grad :: addr
  x_hess :: addr
  grad :: addr
  grad_hess :: addr
  hess :: matrix
  f_min :: real

text \<open>Matrix times vector, \<^verbatim>\<open>M @ v\<close>\<close>

definition matvec :: "matrix \<Rightarrow> ndarray \<Rightarrow> ndarray" where
  "matvec M v = map (\<lambda>row. sum_list (map2 (*) row v)) M"

text \<open>\<^verbatim>\<open>np.amax\<close> of a one-dimensional array; it raises on an array of size zero\<close>

fun amax :: "ndarray \<Rightarrow> error + real" where
  "amax [] = Inl ValueError"
| "amax (v # vs) = Inr (fold max vs v)"

text \<open>a. gradient and hess\<close>

definition estimate :: "optimizer \<Rightarrow> locals \<times> mem \<Rightarrow> locals \<times> mem" where
  "estimate opt = (\<lambda>(L, s).
     (let s1 = num_grad (obj opt) (x_min L) (grad_step opt) (f_min L) (grad L) (x_grad L) s;
          (hess1, s2) = num_hess (obj opt) (x_min L) (grad_step opt) (grad L) (hess L)
                          (x_grad L) (x_hess L) (grad_hess L) s1
      in (L\<lparr>hess := hess1\<rparr>, s2)))"

text \<open>b. direction\<close>

definition direction :: "linalg \<Rightarrow> matrix \<Rightarrow> ndarray \<Rightarrow> error + ndarray" where
  "direction la hess1 g =
     (let hess_det = linalg_det la hess1
      in case linalg_inv la hess1 of
           Inl e \<Rightarrow> Inl e
         | Inr hinv \<Rightarrow> Inr (map (\<lambda>v. - sgn hess_det * v) (matvec hinv g)))"

text \<open>c. update: \<^verbatim>\<open>x_now[:] = x_min[:] + d\<close> and \<^verbatim>\<open>f_now = obj(x_now,*args)\<close>\<close>

definition update :: "optimizer \<Rightarrow> ndarray \<Rightarrow> locals \<times> mem \<Rightarrow> real \<times> mem" where
  "update opt d = (\<lambda>(L, s).
     call_obj (obj opt) (x_now L) (wr_all (x_now L) (map2 (+) (rd s (x_min L)) d) s))"

text \<open>d. check for convergence; \<^verbatim>\<open>or\<close> evaluates its right operand only when needed\<close>

definition converged :: "optimizer \<Rightarrow> int \<Rightarrow> real \<Rightarrow> locals \<times> mem \<Rightarrow> error + bool" where
  "converged opt it f_now = (\<lambda>(L, s).
     if \<bar>f_now - f_min L\<bar> < tol_fun opt then Inr True
     else case amax (map abs (map2 (-) (rd s (x_now L)) (rd s (x_min L)))) of
            Inl e \<Rightarrow> Inl e
          | Inr m \<Rightarrow> Inr (m < tol_x opt \<or> it \<ge> max_iter opt - 1))"

text \<open>
  e. line-search. \<^verbatim>\<open>x_step\<close> is a new array that no other name refers to; the
  objective is called on it and its contents are copied into \<^verbatim>\<open>x_now\<close>.
\<close>

definition line_search :: "optimizer \<Rightarrow> real \<Rightarrow> locals \<times> mem \<Rightarrow> real \<times> mem" where
  "line_search opt f_now = (\<lambda>(L, s).
     if f_now \<ge> f_min L then
       (let x_step = map2 (\<lambda>a b. 0.5 * (a + b)) (rd s (x_min L)) (rd s (x_now L));
            f_step = obj opt x_step;
            s1 = s\<lparr>evals := evals s @ [x_step]\<rparr>
        in if f_step < f_now then (f_step, wr_all (x_now L) x_step s1) else (f_now, s1))
     else (f_now, s))"

text \<open>\<^verbatim>\<open>x_min[:] = x_now[:]\<close> and \<^verbatim>\<open>f_min = f_now\<close>\<close>

definition commit :: "real \<Rightarrow> locals \<times> mem \<Rightarrow> locals \<times> mem" where
  "commit f_now = (\<lambda>(L, s). (L\<lparr>f_min := f_now\<rparr>, wr_all (x_min L) (rd s (x_now L)) s))"

datatype flow = Break | Continue

text \<open>
  Steps a to c of the body of the loop: the estimates, the direction and the candidate.
  The result is the value \<^verbatim>\<open>f_now\<close> with the locals and the memory at the
  convergence check.
\<close>

definition candidate :: "linalg \<Rightarrow> optimizer \<Rightarrow> locals \<times> mem \<Rightarrow> error + (real \<times> locals \<times> mem)" where
  "candidate la opt Ls =
     (let (L1, s1) = estimate opt Ls
      in case direction la (hess L1) (rd s1 (grad L1)) of
           Inl e \<Rightarrow> Inl e
         | Inr d \<Rightarrow> (let (f_now, s2) = update opt d (L1, s1) in Inr (f_now, L1, s2)))"

text \<open>The body of the loop \<^verbatim>\<open>for it in range(max_iter)\<close>\<close>

definition iteration ::
  "linalg \<Rightarrow> optimizer \<Rightarrow> int \<Rightarrow> locals \<times> mem \<Rightarrow> error + (flow \<times> locals \<times> mem)" where
  "iteration la opt it Ls =
     (case candidate la opt Ls of
        Inl e \<Rightarrow> Inl e
      | Inr (f_now, L1, s2) \<Rightarrow>
          (case converged opt it f_now (L1, s2) of
             Inl e \<Rightarrow> Inl e
           | Inr True \<Rightarrow> Inr (Break, commit f_now (L1, s2))
           | Inr False \<Rightarrow>
               (let (f_now', s3) = line_search opt f_now (L1, s2)
                in Inr (Continue, commit f_now' (L1, s3)))))"

text \<open>
  The loop from the iteration \<open>it\<close> on. Beside the final state it returns the number of
  passes through the body since the start of the loop: \<open>it + 1\<close> after a
  \<^verbatim>\<open>break\<close> in the iteration \<open>it\<close>.
\<close>

function iterate ::
  "linalg \<Rightarrow> optimizer \<Rightarrow> int \<Rightarrow> locals \<times> mem \<Rightarrow> error + (int \<times> locals \<times> mem)" where
  "iterate la opt it Ls =
     (if it < max_iter opt then
        (case iteration la opt it Ls of
           Inl e \<Rightarrow> Inl e
         | Inr (Break, Ls') \<Rightarrow> Inr (it + 1, Ls')
         | Inr (Continue, Ls') \<Rightarrow> iterate la opt (it + 1) Ls')
      else Inr (it, Ls))"
  by pat_completeness auto
termination
  by (relation "measure (\<lambda>(la, opt, it, Ls). nat (max_iter opt - it))") auto

declare iterate.simps [simp del]

text \<open>The statements of \<^verbatim>\<open>newton_raphson\<close> before the loop: allocation and initial values\<close>

definition initial :: "optimizer \<Rightarrow> addr \<Rightarrow> mem \<Rightarrow> locals \<times> mem" where
  "initial opt x0 s =
     (let dim = length (rd s x0);
          (x_min, s1) = zeros dim s;
          (x_now, s2) = zeros dim s1;
          (x_grad, s3) = zeros dim s2;
          (x_hess, s4) = zeros dim s3;
          (grad, s5) = zeros dim s4;
          (grad_hess, s6) = zeros dim s5;
          hess = replicate dim (replicate dim 0);
          s7 = fold (\<lambda>i s. wr x_min i (rd s x0 ! i) s) [0..<dim] s6;
          (f_min, s8) = call_obj (obj opt) x_min s7
      in (\<lparr>x_min = x_min, x_now = x_now, x_grad = x_grad, x_hess = x_hess, grad = grad,
            grad_hess = grad_hess, hess = hess, f_min = f_min\<rparr>, s8))"

text \<open>
  A call \<^verbatim>\<open>newton_raphson(x0,*args)\<close> with the number of passes through the loop
  body, and the call as the caller sees it: the returned array and the memory.
\<close>

definition run :: "linalg \<Rightarrow> optimizer \<Rightarrow> addr \<Rightarrow> mem \<Rightarrow> error + (int \<times> locals \<times> mem)" where
  "run la opt x0 s = iterate la opt 0 (initial opt x0 s)"

definition newton_raphson :: "linalg \<Rightarrow> optimizer \<Rightarrow> addr \<Rightarrow> mem \<Rightarrow> error + (addr \<times> mem)" where
  "newton_raphson la opt x0 s =
     (case run la opt x0 s of Inl e \<Rightarrow> Inl e | Inr (n, L, s') \<Rightarrow> Inr (x_min L, s'))"

section \<open>Notions used in the statements\<close>

text \<open>
  The loop head is reached with the counter \<open>it\<close> and the state \<open>Ls\<close> in the run that
  enters the loop with the state \<open>Ls0\<close>: every earlier pass went through the body to its
  end, without \<^verbatim>\<open>break\<close> and without an error.
\<close>

inductive loop_head :: "linalg \<Rightarrow> optimizer \<Rightarrow> locals \<times> mem \<Rightarrow> int \<Rightarrow> locals \<times> mem \<Rightarrow> bool"
  for la :: linalg and opt :: optimizer and Ls0 :: "locals \<times> mem" where
  first: "loop_head la opt Ls0 0 Ls0"
| step: "loop_head la opt Ls0 it Ls \<Longrightarrow> it < max_iter opt \<Longrightarrow>
     iteration la opt it Ls = Inr (Continue, Ls') \<Longrightarrow> loop_head la opt Ls0 (it + 1) Ls'"

text \<open>
  The stopping rule in the words of the specification, for the candidate value \<open>fn\<close>,
  the best value \<open>fm\<close>, and the contents \<open>xn\<close> and \<open>xm\<close> of \<^verbatim>\<open>x_now\<close> and
  \<^verbatim>\<open>x_min\<close>: the change of the objective is below \<^verbatim>\<open>tol_fun\<close>, or the largest
  change of a coordinate is below \<^verbatim>\<open>tol_x\<close>, or the counter has reached
  \<^verbatim>\<open>max_iter - 1\<close>.
\<close>

definition spec_stop :: "optimizer \<Rightarrow> int \<Rightarrow> real \<Rightarrow> real \<Rightarrow> ndarray \<Rightarrow> ndarray \<Rightarrow> bool" where
  "spec_stop opt it fn fm xn xm \<longleftrightarrow>
     \<bar>fn - fm\<bar> < tol_fun opt
     \<or> Max (set (map2 (\<lambda>a b. \<bar>a - b\<bar>) xn xm)) < tol_x opt
     \<or> it \<ge> max_iter opt - 1"

text \<open>The vector \<open>xs\<close> with its first \<open>k\<close> coordinates moved by their steps\<close>

definition perturbed :: "real \<Rightarrow> nat \<Rightarrow> ndarray \<Rightarrow> ndarray" where
  "perturbed h k xs = map (\<lambda>v. v + step_now h v) (take k xs) @ drop k xs"

text \<open>
  The first \<open>k\<close> difference quotients that \<^verbatim>\<open>num_grad\<close> computes on \<open>xs\<close>: quotient
  \<open>j\<close> is taken at the point where the coordinates \<open>0\<close> to \<open>j\<close> are moved.
\<close>

definition grad_list :: "(ndarray \<Rightarrow> real) \<Rightarrow> real \<Rightarrow> real \<Rightarrow> ndarray \<Rightarrow> nat \<Rightarrow> ndarray" where
  "grad_list f h f0 xs k =
     map (\<lambda>j. (f (perturbed h (Suc j) xs) - f0) / step_now h (xs ! j)) [0..<k]"

text \<open>
  The gradient estimate as a value: what \<^verbatim>\<open>num_grad\<close> leaves in \<^verbatim>\<open>grad\<close> when it is
  called on a memory that holds \<open>xs\<close> and an output buffer of the same size.
\<close>

definition num_grad_value :: "(ndarray \<Rightarrow> real) \<Rightarrow> real \<Rightarrow> real \<Rightarrow> ndarray \<Rightarrow> ndarray" where
  "num_grad_value f h f0 xs =
     rd (num_grad f 0 h f0 1 2 \<lparr>heap = [xs, replicate (length xs) 0, []], evals = []\<rparr>) 1"

text \<open>
  Column \<open>i\<close> of the Hessian in the words of the specification: the gradient estimate at
  the point with coordinate \<open>i\<close> moved by its step, with the objective there as the
  baseline, minus the supplied gradient \<open>g0\<close>, divided by the step.
\<close>

definition spec_hess_column :: "(ndarray \<Rightarrow> real) \<Rightarrow> real \<Rightarrow> ndarray \<Rightarrow> ndarray \<Rightarrow> nat \<Rightarrow> ndarray" where
  "spec_hess_column f h xs g0 i =
     (let s_i = step_now h (xs ! i);
          xp = xs[i := xs ! i + s_i]
      in map2 (\<lambda>a b. (a - b) / s_i) (num_grad_value f h (f xp) xp) g0)"

text \<open>
  The buffers that the loop uses are five different arrays of the memory.
  (\<^verbatim>\<open>x_grad\<close> is passed on to the estimators and never read or written.)
\<close>

definition valid :: "locals \<times> mem \<Rightarrow> bool" where
  "valid = (\<lambda>(L, s).
     distinct [x_min L, x_now L, x_hess L, grad L, grad_hess L]
     \<and> x_min L < length (heap s) \<and> x_now L < length (heap s) \<and> x_hess L < length (heap s)
     \<and> grad L < length (heap s) \<and> grad_hess L < length (heap s))"

text \<open>All five buffers have \<open>n\<close> entries and the matrix has \<open>n\<close> rows.\<close>

definition dims :: "nat \<Rightarrow> locals \<times> mem \<Rightarrow> bool" where
  "dims n = (\<lambda>(L, s).
     length (rd s (x_min L)) = n \<and> length (rd s (x_now L)) = n \<and> length (rd s (x_hess L)) = n
     \<and> length (rd s (grad L)) = n \<and> length (rd s (grad_hess L)) = n \<and> length (hess L) = n)"

section \<open>Inputs for the examples\<close>

text \<open>
  \<^verbatim>\<open>np.linalg\<close> on 1 x 1 matrices: the determinant is the entry, the inverse is its
  reciprocal, and \<^verbatim>\<open>np.linalg.inv\<close> raises \<^verbatim>\<open>LinAlgError\<close> on a singular matrix.
\<close>

definition linalg_1x1 :: linalg where
  "linalg_1x1 =
     \<lparr>linalg_det = (\<lambda>M. M ! 0 ! 0),
      linalg_inv = (\<lambda>M. if M ! 0 ! 0 = 0 then Inl LinAlgError else Inr [[1 / (M ! 0 ! 0)]])\<rparr>"

text \<open>Three objectives: \<open>x\<^sub>0 * x\<^sub>1\<close>, \<open>x\<^sub>0\<^sup>2\<close> and a constant\<close>

definition prod2 :: "ndarray \<Rightarrow> real" where
  "prod2 v = v ! 0 * v ! 1"

definition sq :: "ndarray \<Rightarrow> real" where
  "sq v = v ! 0 * v ! 0"

definition const1 :: "ndarray \<Rightarrow> real" where
  "const1 v = 1"

text \<open>A memory with \<open>x = [1, 1]\<close> at address 0 and two more buffers of the same size\<close>

definition mem2 :: mem where
  "mem2 = \<lparr>heap = [[1, 1], [0, 0], [0, 0]], evals = []\<rparr>"

text \<open>A memory that holds only the caller's initial guess \<open>x0 = [0]\<close>, at address 0\<close>

definition mem1 :: mem where
  "mem1 = \<lparr>heap = [[0]], evals = []\<rparr>"

text \<open>An optimizer for \<open>sq\<close> with two iterations and a base step of 1\<close>

definition sq_opt :: optimizer where
  "sq_opt = create_optimizer sq 2 1 (1 / 1000000) (1 / 100000)"

text \<open>
  An optimizer for \<open>sq\<close> with two iterations, a base step of \<open>1 / 4\<close>, \<^verbatim>\<open>tol_fun = 0\<close>
  and \<^verbatim>\<open>tol_x = 1 / 8\<close>
\<close>

definition sq_tol_opt :: optimizer where
  "sq_tol_opt = create_optimizer sq 2 (1 / 4) 0 (1 / 8)"

text \<open>An optimizer for the constant objective with the default values of the source\<close>

definition const_opt :: optimizer where
  "const_opt = create_optimizer const1 5000 (1 / 100000) (1 / 1000000) (1 / 100000)"


text \<open>
  The locals of a run that starts on \<open>mem1\<close>: the buffers are at the addresses 1 to 6.
\<close>

definition ex_locals :: "matrix \<Rightarrow> real \<Rightarrow> locals" where
  "ex_locals H fm =
     \<lparr>x_min = 1, x_now = 2, x_grad = 3, x_hess = 4, grad = 5, grad_hess = 6, hess = H, f_min = fm\<rparr>"

section \<open>The finite-difference step\<close>

text \<open>
  C9. For a positive base step \<open>h\<close> and any coordinate value \<open>xi\<close>, zero and negative
  values included, the step \<open>max (h * xi) h\<close> that both estimators take is at least
  \<open>h\<close> and so positive: neither estimator divides by zero.
\<close>

theorem step_now_positive:
  "0 < h \<Longrightarrow> h \<le> step_now h xi \<and> 0 < step_now h xi"
  by (simp add: step_now_def)

theorem step_now_positive_witness:
  "(0::real) < 1 / 100000 \<and> 1 / 100000 \<le> step_now (1 / 100000) (- 2)
     \<and> 0 < step_now (1 / 100000) (- 2)"
  using step_now_positive [of "1 / 100000" "- 2"] by simp

section \<open>The gradient estimator on an example\<close>

text \<open>
  C1. On \<open>x = [1, 1]\<close> with the objective \<open>x\<^sub>0 * x\<^sub>1\<close>, base step 1 and baseline
  \<open>f0 = 1\<close>, the estimator writes the gradient \<open>[1, 3]\<close>: the second entry is the
  difference quotient at \<open>[2, 2]\<close>, where the first coordinate is still perturbed. With
  the second coordinate alone perturbed, at \<open>[1, 2]\<close>, the quotient is 1.
\<close>

theorem num_grad_perturbation_accumulates:
  "rd (num_grad prod2 0 1 1 1 2 mem2) 1 = [1, 3]
     \<and> evals (num_grad prod2 0 1 1 1 2 mem2) = [[2, 1], [2, 2]]
     \<and> (prod2 [1, 2] - 1) / step_now 1 1 = 1"
  by (simp add: num_grad_def num_grad_body_def mem2_def prod2_def rd_def wr_def call_obj_def
      step_now_def upt_rec)

text \<open>
  C2. On the same input the estimator leaves \<open>[2, 2]\<close> in the caller's vector \<open>x\<close>,
  which held \<open>[1, 1]\<close> on entry, and never touches the working memory it was given: the
  points it evaluates are built in \<open>x\<close> itself.
\<close>

theorem num_grad_overwrites_input:
  "rd mem2 0 = [1, 1]
     \<and> rd (num_grad prod2 0 1 1 1 2 mem2) 0 = [2, 2]
     \<and> rd (num_grad prod2 0 1 1 1 2 mem2) 2 = rd mem2 2"
  by (simp add: num_grad_def num_grad_body_def mem2_def prod2_def rd_def wr_def call_obj_def
      step_now_def upt_rec)

section \<open>Reading and writing the memory\<close>

lemma heap_wr [simp]: "heap (wr a i v s) = (heap s)[a := (heap s ! a)[i := v]]"
  by (simp add: wr_def)

lemma evals_wr [simp]: "evals (wr a i v s) = evals s"
  by (simp add: wr_def)

lemma heap_wr_all [simp]: "heap (wr_all a v s) = (heap s)[a := v]"
  by (simp add: wr_all_def)

lemma evals_wr_all [simp]: "evals (wr_all a v s) = evals s"
  by (simp add: wr_all_def)

lemma rd_wr: "rd (wr a i v s) b = (if b = a \<and> a < length (heap s) then (rd s a)[i := v] else rd s b)"
  by (cases "b = a") (auto simp: rd_def not_less list_update_beyond)

lemma rd_wr_all: "rd (wr_all a v s) b = (if b = a \<and> a < length (heap s) then v else rd s b)"
  by (cases "b = a") (auto simp: rd_def not_less list_update_beyond)

lemma rd_evals_update [simp]: "rd (s\<lparr>evals := e\<rparr>) a = rd s a"
  by (simp add: rd_def)

lemma fst_call_obj [simp]: "fst (call_obj f a s) = f (rd s a)"
  by (simp add: call_obj_def)

lemma snd_call_obj [simp]: "snd (call_obj f a s) = s\<lparr>evals := evals s @ [rd s a]\<rparr>"
  by (simp add: call_obj_def)

lemma length_perturbed [simp]: "length (perturbed h k xs) = length xs"
  by (simp add: perturbed_def)

lemma nth_perturbed:
  "j < length xs \<Longrightarrow>
     perturbed h k xs ! j = (if j < k then xs ! j + step_now h (xs ! j) else xs ! j)"
  by (simp add: perturbed_def nth_append min_def)

lemma perturbed_0 [simp]: "perturbed h 0 xs = xs"
  by (simp add: perturbed_def)

lemma perturbed_Suc:
  "k < length xs \<Longrightarrow>
     (perturbed h k xs)[k := xs ! k + step_now h (xs ! k)] = perturbed h (Suc k) xs"
  by (rule nth_equalityI) (auto simp: nth_perturbed nth_list_update less_Suc_eq)


section \<open>What the gradient estimator does to the memory\<close>

lemma length_heap_num_grad_body [simp]:
  "length (heap (num_grad_body f x h f0 g i s)) = length (heap s)"
  by (simp add: num_grad_body_def Let_def call_obj_def)

lemma length_grad_list [simp]: "length (grad_list f h f0 xs k) = k"
  by (simp add: grad_list_def)

lemma grad_list_Suc:
  "grad_list f h f0 xs (Suc k) =
     grad_list f h f0 xs k @ [(f (perturbed h (Suc k) xs) - f0) / step_now h (xs ! k)]"
  by (simp add: grad_list_def)

lemma num_grad_body_x:
  "x < length (heap s) \<Longrightarrow> x \<noteq> g \<Longrightarrow>
     rd (num_grad_body f x h f0 g i s) x = (rd s x)[i := rd s x ! i + step_now h (rd s x ! i)]"
  by (simp add: num_grad_body_def Let_def call_obj_def rd_wr)

lemma num_grad_body_g:
  "x < length (heap s) \<Longrightarrow> g < length (heap s) \<Longrightarrow> x \<noteq> g \<Longrightarrow>
     rd (num_grad_body f x h f0 g i s) g =
       (rd s g)[i := (f ((rd s x)[i := rd s x ! i + step_now h (rd s x ! i)]) - f0)
                      / step_now h (rd s x ! i)]"
  by (simp add: num_grad_body_def Let_def call_obj_def rd_wr)

lemma num_grad_body_other:
  "a \<noteq> x \<Longrightarrow> a \<noteq> g \<Longrightarrow> rd (num_grad_body f x h f0 g i s) a = rd s a"
  by (simp add: num_grad_body_def Let_def call_obj_def rd_wr)

lemma num_grad_body_evals:
  "x < length (heap s) \<Longrightarrow>
     evals (num_grad_body f x h f0 g i s) =
       evals s @ [(rd s x)[i := rd s x ! i + step_now h (rd s x ! i)]]"
  by (simp add: num_grad_body_def Let_def call_obj_def rd_wr)

text \<open>The memory after the first \<open>k\<close> passes of the loop of \<^verbatim>\<open>num_grad\<close>\<close>

lemma num_grad_prefix:
  assumes "x < length (heap s)" "g < length (heap s)" "x \<noteq> g"
    and "length (rd s g) = length (rd s x)" and "k \<le> length (rd s x)"
  shows "length (heap (fold (num_grad_body f x h f0 g) [0..<k] s)) = length (heap s)
    \<and> rd (fold (num_grad_body f x h f0 g) [0..<k] s) x = perturbed h k (rd s x)
    \<and> rd (fold (num_grad_body f x h f0 g) [0..<k] s) g
        = grad_list f h f0 (rd s x) k @ drop k (rd s g)
    \<and> (\<forall>a. a \<noteq> x \<and> a \<noteq> g \<longrightarrow> rd (fold (num_grad_body f x h f0 g) [0..<k] s) a = rd s a)
    \<and> evals (fold (num_grad_body f x h f0 g) [0..<k] s)
        = evals s @ map (\<lambda>j. perturbed h (Suc j) (rd s x)) [0..<k]"
  using assms(5)
proof (induction k)
  case 0
  show ?case by (simp add: grad_list_def)
next
  case (Suc k)
  let ?s = "fold (num_grad_body f x h f0 g) [0..<k] s"
  have k: "k < length (rd s x)" "k \<le> length (rd s x)" using Suc.prems by simp_all
  note IH = Suc.IH[OF k(2)]
  have step: "fold (num_grad_body f x h f0 g) [0..<Suc k] s = num_grad_body f x h f0 g k ?s"
    by simp
  have sx: "rd ?s x = perturbed h k (rd s x)" using IH by blast
  have sg: "rd ?s g = grad_list f h f0 (rd s x) k @ drop k (rd s g)" using IH by blast
  have xk: "rd ?s x ! k = rd s x ! k"
    using k by (simp add: sx nth_perturbed)
  have vx: "x < length (heap ?s)" and vg: "g < length (heap ?s)"
    using assms(1,2) IH by simp_all
  have a: "rd (num_grad_body f x h f0 g k ?s) x = perturbed h (Suc k) (rd s x)"
    using k by (simp add: num_grad_body_x[OF vx assms(3)] xk) (simp add: sx perturbed_Suc)
  have "rd (num_grad_body f x h f0 g k ?s) g =
          (rd ?s g)[k := (f (perturbed h (Suc k) (rd s x)) - f0) / step_now h (rd s x ! k)]"
    using k by (simp add: num_grad_body_g[OF vx vg assms(3)] xk) (simp add: sx perturbed_Suc)
  also have "\<dots> = grad_list f h f0 (rd s x) (Suc k) @ drop (Suc k) (rd s g)"
    using k assms(4)
    by (simp add: sg grad_list_Suc list_update_append upd_conv_take_nth_drop)
  finally have b: "rd (num_grad_body f x h f0 g k ?s) g
      = grad_list f h f0 (rd s x) (Suc k) @ drop (Suc k) (rd s g)" .
  have c: "\<forall>a. a \<noteq> x \<and> a \<noteq> g \<longrightarrow> rd (num_grad_body f x h f0 g k ?s) a = rd s a"
    using IH by (simp add: num_grad_body_other)
  have "evals (num_grad_body f x h f0 g k ?s) = evals ?s @ [perturbed h (Suc k) (rd s x)]"
    using k by (simp add: num_grad_body_evals[OF vx] xk) (simp add: sx perturbed_Suc)
  then have d: "evals (num_grad_body f x h f0 g k ?s)
      = evals s @ map (\<lambda>j. perturbed h (Suc j) (rd s x)) [0..<Suc k]"
    using IH by simp
  have e: "length (heap (num_grad_body f x h f0 g k ?s)) = length (heap s)"
    using IH by simp
  show ?case
    unfolding step using a b c d e by blast
qed

lemma perturbed_all: "length xs \<le> k \<Longrightarrow> perturbed h k xs = map (\<lambda>v. v + step_now h v) xs"
  by (simp add: perturbed_def)

lemma fold_keeps:
  assumes "\<And>i s. P (body i s) = P s"
  shows "P (fold body js s) = P s"
  by (induction js arbitrary: s) (simp_all add: assms)

lemma length_heap_num_grad [simp]:
  "length (heap (num_grad f x h f0 g xg s)) = length (heap s)"
  unfolding num_grad_def
  by (rule fold_keeps[where P = "\<lambda>s. length (heap s)"]) simp

lemma num_grad_other:
  "a \<noteq> x \<Longrightarrow> a \<noteq> g \<Longrightarrow> rd (num_grad f x h f0 g xg s) a = rd s a"
  unfolding num_grad_def
  by (rule fold_keeps[where P = "\<lambda>s. rd s a"]) (simp add: num_grad_body_other)

lemma length_rd_num_grad_body [simp]:
  "length (rd (num_grad_body f x h f0 g i s) a) = length (rd s a)"
  by (simp add: num_grad_body_def Let_def call_obj_def rd_wr)

lemma length_rd_num_grad [simp]:
  "length (rd (num_grad f x h f0 g xg s) a) = length (rd s a)"
  unfolding num_grad_def
  by (rule fold_keeps[where P = "\<lambda>s. length (rd s a)"]) simp

lemma num_grad_effect:
  assumes "x < length (heap s)" "g < length (heap s)" "x \<noteq> g"
    and "length (rd s g) = length (rd s x)"
  shows "rd (num_grad f x h f0 g xg s) x = map (\<lambda>v. v + step_now h v) (rd s x)"
    and "rd (num_grad f x h f0 g xg s) g = grad_list f h f0 (rd s x) (length (rd s x))"
    and "evals (num_grad f x h f0 g xg s)
           = evals s @ map (\<lambda>j. perturbed h (Suc j) (rd s x)) [0..<length (rd s x)]"
  using num_grad_prefix[OF assms, of "length (rd s x)" f h f0] assms(4)
  by (simp_all add: num_grad_def perturbed_all)

lemma num_grad_value_eq: "num_grad_value f h f0 xs = grad_list f h f0 xs (length xs)"
  unfolding num_grad_value_def
  by (subst num_grad_effect(2)) (simp_all add: rd_def)

lemma num_grad_result:
  assumes "x < length (heap s)" "g < length (heap s)" "x \<noteq> g"
    and "length (rd s g) = length (rd s x)"
  shows "rd (num_grad f x h f0 g xg s) g = num_grad_value f h f0 (rd s x)"
  by (simp add: num_grad_effect(2)[OF assms] num_grad_value_eq)

section \<open>What the Hessian estimator does to the memory\<close>

lemma length_set_col [simp]: "length (set_col i v H) = min (length H) (length v)"
  by (simp add: set_col_def)

lemma nth_set_col:
  "r < length H \<Longrightarrow> r < length v \<Longrightarrow> set_col i v H ! r = (H ! r)[i := v ! r]"
  by (simp add: set_col_def)

lemma length_spec_hess_column [simp]:
  "length (spec_hess_column f h xs g0 i) = min (length xs) (length g0)"
  by (simp add: spec_hess_column_def Let_def num_grad_value_eq)

lemma length_heap_num_hess_body [simp]:
  "length (heap (snd (num_hess_body f x h g xg xh gh i Hs))) = length (heap (snd Hs))"
  by (cases Hs) (simp add: num_hess_body_def Let_def call_obj_def)

lemma num_hess_body_other:
  "a \<noteq> xh \<Longrightarrow> a \<noteq> gh \<Longrightarrow> rd (snd (num_hess_body f x h g xg xh gh i Hs)) a = rd (snd Hs) a"
  by (cases Hs) (simp add: num_hess_body_def Let_def call_obj_def num_grad_other rd_wr rd_wr_all)

lemma length_rd_num_hess_body:
  "a \<noteq> xh \<Longrightarrow>
     length (rd (snd (num_hess_body f x h g xg xh gh i Hs)) a) = length (rd (snd Hs) a)"
  by (cases Hs) (simp add: num_hess_body_def Let_def call_obj_def rd_wr rd_wr_all)

lemma length_rd_num_hess_body_xh:
  "xh < length (heap (snd Hs)) \<Longrightarrow>
     length (rd (snd (num_hess_body f x h g xg xh gh i Hs)) xh) = length (rd (snd Hs) x)"
  by (cases Hs) (simp add: num_hess_body_def Let_def call_obj_def rd_wr rd_wr_all)

lemma num_hess_body_hess:
  assumes "xh < length (heap s)" "gh < length (heap s)"
    and "xh \<noteq> x" "xh \<noteq> g" "gh \<noteq> g" "gh \<noteq> xh"
    and "length (rd s gh) = length (rd s x)"
  shows "fst (num_hess_body f x h g xg xh gh i (H, s))
           = set_col i (spec_hess_column f h (rd s x) (rd s g) i) H"
proof -
  let ?xi = "rd s x ! i"
  let ?xp = "(rd s x)[i := ?xi + step_now h ?xi]"
  let ?s3 = "snd (call_obj f xh (wr xh i (?xi + step_now h ?xi) (wr_all xh (rd s x) s)))"
  have xp: "rd ?s3 xh = ?xp" using assms(1) by (simp add: rd_wr rd_wr_all)
  have gh3: "rd ?s3 gh = rd s gh" using assms(6) by (simp add: rd_wr rd_wr_all)
  have g3: "rd ?s3 g = rd s g" using assms(4) by (simp add: rd_wr rd_wr_all)
  have v: "xh < length (heap ?s3)" "gh < length (heap ?s3)" using assms(1,2) by simp_all
  have len: "length (rd ?s3 gh) = length (rd ?s3 xh)" using assms(7) xp gh3 by simp
  have a: "rd (num_grad f xh h (f ?xp) gh xg ?s3) gh = num_grad_value f h (f ?xp) ?xp"
    using num_grad_result[OF v(1) v(2) assms(6)[symmetric] len] xp by simp
  have b: "rd (num_grad f xh h (f ?xp) gh xg ?s3) g = rd s g"
    using assms(4,5) g3 by (simp add: num_grad_other[of g xh gh])
  have f0: "fst (call_obj f xh (wr xh i (?xi + step_now h ?xi) (wr_all xh (rd s x) s))) = f ?xp"
    using assms(1) by (simp add: rd_wr rd_wr_all)
  show ?thesis
    using a b f0 assms(3)
    by (simp add: num_hess_body_def Let_def split_beta spec_hess_column_def rd_wr rd_wr_all)
qed


lemma length_heap_num_hess [simp]:
  "length (heap (snd (num_hess f x h g H xg xh gh s))) = length (heap s)"
  unfolding num_hess_def
  by (subst fold_keeps[where P = "\<lambda>Hs. length (heap (snd Hs))"]) simp_all

lemma num_hess_other:
  "a \<noteq> xh \<Longrightarrow> a \<noteq> gh \<Longrightarrow> rd (snd (num_hess f x h g H xg xh gh s)) a = rd s a"
  unfolding num_hess_def
  by (subst fold_keeps[where P = "\<lambda>Hs. rd (snd Hs) a"]) (simp_all add: num_hess_body_other)

lemma length_rd_num_hess:
  "a \<noteq> xh \<Longrightarrow> length (rd (snd (num_hess f x h g H xg xh gh s)) a) = length (rd s a)"
  unfolding num_hess_def
  by (subst fold_keeps[where P = "\<lambda>Hs. length (rd (snd Hs) a)"])
    (simp_all add: length_rd_num_hess_body)

text \<open>The matrix after the first \<open>k\<close> passes of the loop of \<^verbatim>\<open>num_hess\<close>\<close>

lemma num_hess_prefix:
  assumes "xh < length (heap s)" "gh < length (heap s)"
    and "xh \<noteq> x" "xh \<noteq> g" "gh \<noteq> x" "gh \<noteq> g" "gh \<noteq> xh"
    and "length (rd s gh) = length (rd s x)"
  shows "fst (fold (num_hess_body f x h g xg xh gh) [0..<k] (H, s))
           = fold (\<lambda>i. set_col i (spec_hess_column f h (rd s x) (rd s g) i)) [0..<k] H"
proof (induction k)
  case 0
  show ?case by simp
next
  case (Suc k)
  let ?Hs = "fold (num_hess_body f x h g xg xh gh) [0..<k] (H, s)"
  have keep: "\<And>P. (\<And>i Hs. P (snd (num_hess_body f x h g xg xh gh i Hs)) = P (snd Hs))
                \<Longrightarrow> P (snd ?Hs) = P s"
    by (subst fold_keeps[where P = "\<lambda>Hs. P (snd Hs)" for P]) simp_all
  have v: "xh < length (heap (snd ?Hs))" "gh < length (heap (snd ?Hs))"
    using assms(1,2) by (simp_all add: keep[where P = "\<lambda>s. length (heap s)"])
  have x: "rd (snd ?Hs) x = rd s x"
    using assms(3,5) by (simp add: keep[where P = "\<lambda>s. rd s x"] num_hess_body_other)
  have g: "rd (snd ?Hs) g = rd s g"
    using assms(4,6) by (simp add: keep[where P = "\<lambda>s. rd s g"] num_hess_body_other)
  have len: "length (rd (snd ?Hs) gh) = length (rd (snd ?Hs) x)"
    using assms(7,8) by (simp add: x keep[where P = "\<lambda>s. length (rd s gh)"] length_rd_num_hess_body)
  have A: "fst (num_hess_body f x h g xg xh gh k ?Hs)
          = set_col k (spec_hess_column f h (rd s x) (rd s g) k) (fst ?Hs)"
    using num_hess_body_hess[OF v assms(3,4,6,7) len, where H = "fst ?Hs" and i = k and f = f and xg = xg]
    by (simp add: x g)
  have "fold (num_hess_body f x h g xg xh gh) [0..<Suc k] (H, s)
          = num_hess_body f x h g xg xh gh k ?Hs"
    by simp
  then show ?case
    using A Suc.IH by simp
qed


lemma fold_set_col:
  assumes "\<And>i. i < k \<Longrightarrow> length (c i) = length H"
  shows "length (fold (\<lambda>i. set_col i (c i)) [0..<k] H) = length H
    \<and> (\<forall>r < length H. fold (\<lambda>i. set_col i (c i)) [0..<k] H ! r
           = fold (\<lambda>i row. row[i := c i ! r]) [0..<k] (H ! r))"
  using assms
proof (induction k)
  case 0
  show ?case by simp
next
  case (Suc k)
  then show ?case by (simp add: nth_set_col)
qed



section \<open>The columns of the Hessian estimate\<close>




section \<open>The steps of the loop body\<close>

lemma estimate_fields [simp]:
  "x_min (fst (estimate opt Ls)) = x_min (fst Ls)"
  "x_now (fst (estimate opt Ls)) = x_now (fst Ls)"
  "x_grad (fst (estimate opt Ls)) = x_grad (fst Ls)"
  "x_hess (fst (estimate opt Ls)) = x_hess (fst Ls)"
  "grad (fst (estimate opt Ls)) = grad (fst Ls)"
  "grad_hess (fst (estimate opt Ls)) = grad_hess (fst Ls)"
  "f_min (fst (estimate opt Ls)) = f_min (fst Ls)"
  by (cases Ls; simp add: estimate_def Let_def split: prod.splits)+

lemma length_heap_estimate [simp]:
  "length (heap (snd (estimate opt Ls))) = length (heap (snd Ls))"
proof (cases Ls)
  case (Pair L s)
  have "snd (estimate opt (L, s)) = snd (num_hess (obj opt) (x_min L) (grad_step opt) (grad L) (hess L)
          (x_grad L) (x_hess L) (grad_hess L)
          (num_grad (obj opt) (x_min L) (grad_step opt) (f_min L) (grad L) (x_grad L) s))"
    by (simp add: estimate_def Let_def split: prod.splits)
  then show ?thesis using Pair by simp
qed

lemma estimate_other:
  assumes "a \<noteq> x_min (fst Ls)" "a \<noteq> grad (fst Ls)" "a \<noteq> x_hess (fst Ls)" "a \<noteq> grad_hess (fst Ls)"
  shows "rd (snd (estimate opt Ls)) a = rd (snd Ls) a"
proof (cases Ls)
  case (Pair L s)
  have "snd (estimate opt (L, s)) = snd (num_hess (obj opt) (x_min L) (grad_step opt) (grad L) (hess L)
          (x_grad L) (x_hess L) (grad_hess L)
          (num_grad (obj opt) (x_min L) (grad_step opt) (f_min L) (grad L) (x_grad L) s))"
    by (simp add: estimate_def Let_def split: prod.splits)
  then show ?thesis using Pair assms by (simp add: num_hess_other num_grad_other)
qed

lemma length_heap_update [simp]:
  "length (heap (snd (update opt d Ls))) = length (heap (snd Ls))"
  by (cases Ls) (simp add: update_def call_obj_def)

lemma rd_update:
  "rd (snd (update opt d (L, s))) a
     = (if a = x_now L \<and> x_now L < length (heap s) then map2 (+) (rd s (x_min L)) d else rd s a)"
  by (simp add: update_def rd_wr_all)

lemma length_heap_line_search [simp]:
  "length (heap (snd (line_search opt fn Ls))) = length (heap (snd Ls))"
  by (cases Ls) (simp add: line_search_def Let_def)

lemma rd_line_search_other:
  "a \<noteq> x_now (fst Ls) \<Longrightarrow> rd (snd (line_search opt fn Ls)) a = rd (snd Ls) a"
  by (cases Ls) (simp add: line_search_def Let_def rd_wr_all)

lemma commit_fields [simp]:
  "x_min (fst (commit fn Ls)) = x_min (fst Ls)"
  "x_now (fst (commit fn Ls)) = x_now (fst Ls)"
  "x_grad (fst (commit fn Ls)) = x_grad (fst Ls)"
  "x_hess (fst (commit fn Ls)) = x_hess (fst Ls)"
  "grad (fst (commit fn Ls)) = grad (fst Ls)"
  "grad_hess (fst (commit fn Ls)) = grad_hess (fst Ls)"
  "hess (fst (commit fn Ls)) = hess (fst Ls)"
  "f_min (fst (commit fn Ls)) = fn"
  by (cases Ls; simp add: commit_def)+

lemma length_heap_commit [simp]:
  "length (heap (snd (commit fn Ls))) = length (heap (snd Ls))"
  by (cases Ls) (simp add: commit_def)

lemma evals_commit [simp]: "evals (snd (commit fn Ls)) = evals (snd Ls)"
  by (cases Ls) (simp add: commit_def)

lemma rd_commit:
  "rd (snd (commit fn (L, s))) a
     = (if a = x_min L \<and> x_min L < length (heap s) then rd s (x_now L) else rd s a)"
  by (simp add: commit_def rd_wr_all)

lemma candidate_Inr:
  assumes "candidate la opt Ls = Inr (fn, L1, s2)"
  shows "L1 = fst (estimate opt Ls)
    \<and> (\<exists>d. direction la (hess L1) (rd (snd (estimate opt Ls)) (grad L1)) = Inr d
          \<and> fn = fst (update opt d (estimate opt Ls))
          \<and> s2 = snd (update opt d (estimate opt Ls)))"
  using assms
  by (auto simp: candidate_def Let_def split: prod.splits sum.splits)

lemma direction_Inr:
  "direction la H g = Inr d \<Longrightarrow>
     \<exists>hinv. linalg_inv la H = Inr hinv
       \<and> d = map (\<lambda>v. - sgn (linalg_det la H) * v) (matvec hinv g)"
  by (auto simp: direction_def Let_def split: sum.splits)

lemma direction_Inl:
  "direction la H g = Inl e \<Longrightarrow> linalg_inv la H = Inl e"
  by (auto simp: direction_def Let_def split: sum.splits)

lemma iteration_Inr:
  assumes "iteration la opt it Ls = Inr (fl, Ls')"
  shows "\<exists>fn L1 s2. candidate la opt Ls = Inr (fn, L1, s2)
    \<and> (fl = Break \<and> converged opt it fn (L1, s2) = Inr True \<and> Ls' = commit fn (L1, s2)
       \<or> fl = Continue \<and> converged opt it fn (L1, s2) = Inr False
           \<and> Ls' = commit (fst (line_search opt fn (L1, s2)))
                      (L1, snd (line_search opt fn (L1, s2))))"
  using assms
  by (auto simp: iteration_def Let_def split: prod.splits sum.splits bool.splits)

lemma converged_False_counter:
  "converged opt it fn Ls = Inr False \<Longrightarrow> it < max_iter opt - 1"
  by (cases Ls) (auto simp: converged_def split: if_splits sum.splits)

section \<open>The buffers stay in place\<close>

lemma candidate_fields:
  assumes "candidate la opt Ls = Inr (fn, L1, s2)"
  shows "x_min L1 = x_min (fst Ls)" "x_now L1 = x_now (fst Ls)" "x_hess L1 = x_hess (fst Ls)"
    "grad L1 = grad (fst Ls)" "grad_hess L1 = grad_hess (fst Ls)" "x_grad L1 = x_grad (fst Ls)"
    "f_min L1 = f_min (fst Ls)" "length (heap s2) = length (heap (snd Ls))"
  using candidate_Inr[OF assms] by auto

lemma candidate_other:
  assumes "candidate la opt Ls = Inr (fn, L1, s2)"
    and "a \<noteq> x_min (fst Ls)" "a \<noteq> x_now (fst Ls)" "a \<noteq> x_hess (fst Ls)"
    and "a \<noteq> grad (fst Ls)" "a \<noteq> grad_hess (fst Ls)"
  shows "rd s2 a = rd (snd Ls) a"
proof -
  obtain d where "s2 = snd (update opt d (estimate opt Ls))"
    using candidate_Inr[OF assms(1)] by blast
  then have "rd s2 a = rd (snd (estimate opt Ls)) a"
    using assms(3) by (cases "estimate opt Ls") (simp add: rd_update, metis estimate_fields(2) fst_conv)
  then show ?thesis using assms by (simp add: estimate_other)
qed

lemma iteration_fields:
  assumes "iteration la opt it Ls = Inr (fl, Ls')"
  shows "x_min (fst Ls') = x_min (fst Ls)" "x_now (fst Ls') = x_now (fst Ls)"
    "x_hess (fst Ls') = x_hess (fst Ls)" "grad (fst Ls') = grad (fst Ls)"
    "grad_hess (fst Ls') = grad_hess (fst Ls)" "x_grad (fst Ls') = x_grad (fst Ls)"
    "length (heap (snd Ls')) = length (heap (snd Ls))"
proof -
  obtain fn L1 s2 where c: "candidate la opt Ls = Inr (fn, L1, s2)"
    and r: "Ls' = commit fn (L1, s2)
          \<or> Ls' = commit (fst (line_search opt fn (L1, s2))) (L1, snd (line_search opt fn (L1, s2)))"
    using iteration_Inr[OF assms] by blast
  note cf = candidate_fields[OF c]
  show "x_min (fst Ls') = x_min (fst Ls)" using r cf by auto
  show "x_now (fst Ls') = x_now (fst Ls)" using r cf by auto
  show "x_hess (fst Ls') = x_hess (fst Ls)" using r cf by auto
  show "grad (fst Ls') = grad (fst Ls)" using r cf by auto
  show "grad_hess (fst Ls') = grad_hess (fst Ls)" using r cf by auto
  show "x_grad (fst Ls') = x_grad (fst Ls)" using r cf by auto
  show "length (heap (snd Ls')) = length (heap (snd Ls))" using r cf by auto
qed

lemma iteration_other:
  assumes "iteration la opt it Ls = Inr (fl, Ls')"
    and "a \<noteq> x_min (fst Ls)" "a \<noteq> x_now (fst Ls)" "a \<noteq> x_hess (fst Ls)"
    and "a \<noteq> grad (fst Ls)" "a \<noteq> grad_hess (fst Ls)"
  shows "rd (snd Ls') a = rd (snd Ls) a"
proof -
  obtain fn L1 s2 where c: "candidate la opt Ls = Inr (fn, L1, s2)"
    and r: "Ls' = commit fn (L1, s2)
          \<or> Ls' = commit (fst (line_search opt fn (L1, s2))) (L1, snd (line_search opt fn (L1, s2)))"
    using iteration_Inr[OF assms(1)] by blast
  note cf = candidate_fields[OF c]
  have s2: "rd s2 a = rd (snd Ls) a" by (rule candidate_other[OF c assms(2-6)])
  have "rd (snd Ls') a = rd s2 a"
    using r assms(2,3) cf by (auto simp: rd_commit rd_line_search_other)
  then show ?thesis using s2 by simp
qed

lemma valid_iteration:
  assumes "iteration la opt it Ls = Inr (fl, Ls')" "valid Ls"
  shows "valid Ls'"
  using assms(2) iteration_fields[OF assms(1)]
  by (cases Ls, cases Ls') (simp add: valid_def)

section \<open>The state at the start of the loop\<close>

lemma rd_heap_update_other:
  "heap t = (heap s)[a := v] \<Longrightarrow> a \<noteq> b \<Longrightarrow> rd t b = rd s b"
  by (simp add: rd_def)

lemma rd_heap_eq: "heap t = hp \<Longrightarrow> rd t a = hp ! a"
  by (simp add: rd_def)

lemma copy_loop:
  assumes "a < length (heap s)" "a \<noteq> b" "length (rd s a) = length (rd s b)" "k \<le> length (rd s b)"
  shows "heap (fold (\<lambda>i t. wr a i (rd t b ! i) t) [0..<k] s)
           = (heap s)[a := take k (rd s b) @ drop k (rd s a)]
       \<and> evals (fold (\<lambda>i t. wr a i (rd t b ! i) t) [0..<k] s) = evals s"
  using assms(4)
proof (induction k)
  case 0
  show ?case by (simp add: rd_def)
next
  case (Suc k)
  let ?s = "fold (\<lambda>i t. wr a i (rd t b ! i) t) [0..<k] s"
  have k: "k < length (rd s b)" using Suc.prems by simp
  have h: "heap ?s = (heap s)[a := take k (rd s b) @ drop k (rd s a)]" and e: "evals ?s = evals s"
    using Suc.IH k by simp_all
  have b: "rd ?s b = rd s b" by (rule rd_heap_update_other[OF h assms(2)])
  have "(take k (rd s b) @ drop k (rd s a))[k := rd s b ! k]
          = take (Suc k) (rd s b) @ drop (Suc k) (rd s a)"
    using k assms(3)
    by (simp add: list_update_append take_Suc_conv_app_nth upd_conv_take_nth_drop)
  then have "heap (wr a k (rd ?s b ! k) ?s)
          = (heap s)[a := take (Suc k) (rd s b) @ drop (Suc k) (rd s a)]"
    using assms(1) by (simp add: b h)
  moreover have "evals (wr a k (rd ?s b ! k) ?s) = evals s"
    using e by simp
  ultimately show ?case by simp
qed

lemma initial_eq:
  assumes "x0 < length (heap s)"
  shows "initial opt x0 s =
     (\<lparr>x_min = length (heap s), x_now = length (heap s) + 1, x_grad = length (heap s) + 2,
       x_hess = length (heap s) + 3, grad = length (heap s) + 4, grad_hess = length (heap s) + 5,
       hess = replicate (length (rd s x0)) (replicate (length (rd s x0)) 0),
       f_min = obj opt (rd s x0)\<rparr>,
      \<lparr>heap = heap s @ [rd s x0] @ replicate 5 (replicate (length (rd s x0)) 0),
        evals = evals s @ [rd s x0]\<rparr>)"
proof -
  let ?n = "length (rd s x0)"
  let ?N = "length (heap s)"
  let ?z = "replicate ?n (0::real)"
  let ?s6 = "s\<lparr>heap := heap s @ replicate 6 ?z\<rparr>"
  let ?s7 = "fold (\<lambda>i t. wr ?N i (rd t x0 ! i) t) [0..<?n] ?s6"
  have x0: "rd ?s6 x0 = rd s x0" using assms by (simp add: rd_def nth_append)
  have a: "rd ?s6 ?N = ?z" by (simp add: rd_def nth_append numeral_eq_Suc)
  have c: "heap ?s7 = (heap ?s6)[?N := take ?n (rd ?s6 x0) @ drop ?n (rd ?s6 ?N)]
         \<and> evals ?s7 = evals ?s6"
    using assms by (intro copy_loop) (simp_all add: x0 a)
  have "(heap ?s6)[?N := take ?n (rd ?s6 x0) @ drop ?n (rd ?s6 ?N)]
          = heap s @ [rd s x0] @ replicate 5 ?z"
    unfolding x0 a by (simp add: list_update_append numeral_eq_Suc)
  then have h7: "heap ?s7 = heap s @ [rd s x0] @ replicate 5 ?z"
    using c by simp
  have e7: "evals ?s7 = evals s" using c by simp
  have r7: "rd ?s7 ?N = rd s x0" using rd_heap_eq[OF h7, of ?N] by simp
  have s6: "snd (zeros ?n (snd (zeros ?n (snd (zeros ?n (snd (zeros ?n (snd (zeros ?n (snd (zeros ?n s)))))))))))
            = ?s6"
    by (simp add: zeros_def numeral_eq_Suc)
  show ?thesis
    unfolding initial_def
    by (simp add: zeros_def Let_def call_obj_def s6[unfolded zeros_def, simplified] r7 h7 e7)
qed

lemma valid_initial: "x0 < length (heap s) \<Longrightarrow> valid (initial opt x0 s)"
  by (simp add: initial_eq valid_def)

section \<open>The states at the loop head\<close>

lemma loop_head_valid:
  "loop_head la opt Ls0 it Ls \<Longrightarrow> valid Ls0 \<Longrightarrow> valid Ls"
  by (induction rule: loop_head.induct) (auto intro: valid_iteration)

lemma loop_head_fields:
  assumes "loop_head la opt Ls0 it Ls"
  shows "x_min (fst Ls) = x_min (fst Ls0) \<and> x_now (fst Ls) = x_now (fst Ls0)
    \<and> x_hess (fst Ls) = x_hess (fst Ls0) \<and> grad (fst Ls) = grad (fst Ls0)
    \<and> grad_hess (fst Ls) = grad_hess (fst Ls0) \<and> x_grad (fst Ls) = x_grad (fst Ls0)
    \<and> length (heap (snd Ls)) = length (heap (snd Ls0))"
  using assms
proof (induction rule: loop_head.induct)
  case first
  show ?case by simp
next
  case (step it Ls Ls')
  show ?case using iteration_fields[OF step.hyps(3)] step.IH by simp
qed

lemma loop_head_other:
  assumes "loop_head la opt Ls0 it Ls"
    and "a \<noteq> x_min (fst Ls0)" "a \<noteq> x_now (fst Ls0)" "a \<noteq> x_hess (fst Ls0)"
    and "a \<noteq> grad (fst Ls0)" "a \<noteq> grad_hess (fst Ls0)"
  shows "rd (snd Ls) a = rd (snd Ls0) a"
  using assms
proof (induction rule: loop_head.induct)
  case first
  show ?case by simp
next
  case (step it Ls Ls')
  have f: "x_min (fst Ls) = x_min (fst Ls0)" "x_now (fst Ls) = x_now (fst Ls0)"
    "x_hess (fst Ls) = x_hess (fst Ls0)" "grad (fst Ls) = grad (fst Ls0)"
    "grad_hess (fst Ls) = grad_hess (fst Ls0)"
    using loop_head_fields[OF step.hyps(1)] by simp_all
  have "rd (snd Ls') a = rd (snd Ls) a"
    using step.prems by (intro iteration_other[OF step.hyps(3)]) (simp_all add: f)
  then show ?case using step.IH step.prems by simp
qed

lemma iteration_Continue_counter:
  assumes "iteration la opt it Ls = Inr (Continue, Ls')"
  shows "it < max_iter opt - 1"
  using iteration_Inr[OF assms] converged_False_counter by blast

text \<open>A run of the loop that returns has left it by \<^verbatim>\<open>break\<close>, in its last pass.\<close>

lemma iterate_break:
  assumes "iterate la opt it Ls = Inr (n, Ls'')" "it < max_iter opt" "loop_head la opt Ls0 it Ls"
  shows "\<exists>Lsf. loop_head la opt Ls0 (n - 1) Lsf \<and> it \<le> n - 1 \<and> n - 1 < max_iter opt
           \<and> iteration la opt (n - 1) Lsf = Inr (Break, Ls'')"
  using assms
proof (induction la opt it Ls rule: iterate.induct)
  case (1 la opt it Ls)
  from "1.prems"(1,2) obtain fl Ls' where it: "iteration la opt it Ls = Inr (fl, Ls')"
    by (subst (asm) iterate.simps) (auto split: sum.splits)
  show ?case
  proof (cases fl)
    case Break
    then have "n = it + 1" "Ls'' = Ls'"
      using "1.prems"(1,2) it by (subst (asm) iterate.simps, simp)+
    then show ?thesis using it Break "1.prems"(2,3) by (intro exI[of _ Ls]) simp
  next
    case Continue
    then have r: "iterate la opt (it + 1) Ls' = Inr (n, Ls'')"
      using "1.prems"(1,2) it by (subst (asm) iterate.simps) simp
    have lt: "it + 1 < max_iter opt"
      using iteration_Continue_counter it Continue by fastforce
    have h: "loop_head la opt Ls0 (it + 1) Ls'"
      using "1.prems"(2,3) it Continue by (auto intro: loop_head.step)
    obtain Lsf where "loop_head la opt Ls0 (n - 1) Lsf" "it + 1 \<le> n - 1" "n - 1 < max_iter opt"
      "iteration la opt (n - 1) Lsf = Inr (Break, Ls'')"
      using "1.IH"[OF "1.prems"(2) it[unfolded Continue, THEN sym, THEN sym] _ _ r lt h] it Continue
      by blast
    then show ?thesis by (intro exI[of _ Lsf]) simp
  qed
qed

section \<open>An example run\<close>

lemma sq_initial:
  "initial sq_opt 0 mem1 =
    (ex_locals [[0]] 0,
     \<lparr>heap = [[0], [0], [0], [0], [0], [0], [0]], evals = [[0]]\<rparr>)"
  by code_simp

lemma sq_iteration0:
  "iteration linalg_1x1 sq_opt 0 (initial sq_opt 0 mem1) =
     Inr (Continue,
      ex_locals [[5]] (16 / 25),
      \<lparr>heap = [[0], [4 / 5], [4 / 5], [0], [4], [1], [6]],
       evals = [[0], [1], [2], [4], [4 / 5], [9 / 10]]\<rparr>)"
  by code_simp

lemma sq_candidate0:
  "candidate linalg_1x1 sq_opt (initial sq_opt 0 mem1) =
     Inr (16 / 25,
      ex_locals [[5]] 0,
      \<lparr>heap = [[0], [1], [4 / 5], [0], [4], [1], [6]], evals = [[0], [1], [2], [4], [4 / 5]]\<rparr>)"
  by code_simp

lemma sq_run:
  "run linalg_1x1 sq_opt 0 mem1 =
     Inr (2,
      ex_locals [[41 / 9]] (63504 / 42025),
      \<lparr>heap = [[0], [252 / 205], [252 / 205], [0], [36 / 5], [13 / 5], [54 / 5]],
       evals = [[0], [1], [2], [4], [4 / 5], [9 / 10], [9 / 5], [18 / 5], [36 / 5], [252 / 205]]\<rparr>)"
  by code_simp

lemma sq_newton_raphson:
  "newton_raphson linalg_1x1 sq_opt 0 mem1 =
     Inr (1, \<lparr>heap = [[0], [252 / 205], [252 / 205], [0], [36 / 5], [13 / 5], [54 / 5]],
       evals = [[0], [1], [2], [4], [4 / 5], [9 / 10], [9 / 5], [18 / 5], [36 / 5], [252 / 205]]\<rparr>)"
  by (simp add: newton_raphson_def sq_run ex_locals_def)

lemma const_newton_raphson:
  "newton_raphson linalg_1x1 const_opt 0 mem1 = Inl LinAlgError"
  by code_simp

lemma sq_head0: "loop_head linalg_1x1 sq_opt (initial sq_opt 0 mem1) 0 (initial sq_opt 0 mem1)"
  by (rule loop_head.first)

lemma sq_max_iter: "max_iter sq_opt = 2"
  by (simp add: sq_opt_def create_optimizer_def)

lemma mem1_x0: "0 < length (heap mem1)"
  by (simp add: mem1_def)

section \<open>The loop body after the estimators have moved the buffer\<close>

lemma sq_initial_x_min:
  "rd (snd (initial sq_opt 0 mem1)) (x_min (fst (initial sq_opt 0 mem1))) = [0]"
  by (simp add: sq_initial ex_locals_def rd_def)

lemma sq_estimate0:
  "estimate sq_opt (initial sq_opt 0 mem1) =
     (ex_locals [[5]] 0,
      \<lparr>heap = [[0], [1], [0], [0], [4], [1], [6]], evals = [[0], [1], [2], [4]]\<rparr>)"
  by code_simp

lemma sq_direction0: "direction linalg_1x1 [[5]] [1] = Inr [- (1 / 5)]"
  by code_simp

lemma sq_tol_initial:
  "initial sq_tol_opt 0 mem1 =
     (ex_locals [[0]] 0, \<lparr>heap = [[0], [0], [0], [0], [0], [0], [0]], evals = [[0]]\<rparr>)"
  by code_simp

lemma sq_tol_candidate0:
  "candidate linalg_1x1 sq_tol_opt (initial sq_tol_opt 0 mem1) =
     Inr (9 / 256, ex_locals [[4]] 0,
      \<lparr>heap = [[0], [1 / 4], [3 / 16], [0], [3 / 4], [1 / 4], [5 / 4]],
       evals = [[0], [1 / 4], [1 / 2], [3 / 4], [3 / 16]]\<rparr>)"
  by code_simp

lemma sq_tol_run:
  "run linalg_1x1 sq_tol_opt 0 mem1 =
     Inr (1, ex_locals [[4]] (9 / 256),
      \<lparr>heap = [[0], [3 / 16], [3 / 16], [0], [3 / 4], [1 / 4], [5 / 4]],
       evals = [[0], [1 / 4], [1 / 2], [3 / 4], [3 / 16]]\<rparr>)"
  by code_simp

lemma sq_tol_no_stop: "\<not> spec_stop sq_tol_opt 0 (9 / 256) 0 [3 / 16] [0]"
  by (simp add: spec_stop_def sq_tol_opt_def create_optimizer_def)

text \<open>
  C7. For the objective \<open>x\<^sup>2\<close> with \<open>x0 = [0]\<close> and a base step of 1, the first pass
  starts from \<open>x_min = [0]\<close>. The estimators leave the matrix \<open>[[5]]\<close> and the gradient
  \<open>[1]\<close>, and they leave \<open>[1]\<close> in the buffer \<^verbatim>\<open>x_min\<close>. The direction is
  \<open>d = - sgn 5 * (1 / 5 * 1) = - 1 / 5\<close>, as the formula says. The candidate written to
  \<^verbatim>\<open>x_now\<close> is \<open>[4 / 5]\<close>, the moved buffer plus \<open>d\<close>; \<open>x_min + d\<close> is \<open>[- 1 / 5]\<close>.
\<close>

theorem candidate_starts_from_shifted_x_min:
  "rd (snd (initial sq_opt 0 mem1)) (x_min (fst (initial sq_opt 0 mem1))) = [0]
   \<and> estimate sq_opt (initial sq_opt 0 mem1) =
       (ex_locals [[5]] 0,
        \<lparr>heap = [[0], [1], [0], [0], [4], [1], [6]], evals = [[0], [1], [2], [4]]\<rparr>)
   \<and> direction linalg_1x1 [[5]] [1] = Inr [- (1 / 5)]
   \<and> candidate linalg_1x1 sq_opt (initial sq_opt 0 mem1) =
       Inr (16 / 25, ex_locals [[5]] 0,
        \<lparr>heap = [[0], [1], [4 / 5], [0], [4], [1], [6]],
         evals = [[0], [1], [2], [4], [4 / 5]]\<rparr>)
   \<and> map2 (+) [0] [- (1 / 5)] = [- (1 / 5) :: real]"
  using sq_initial_x_min sq_estimate0 sq_direction0 sq_candidate0 by simp

text \<open>
  C5. In the same pass the convergence check fails and \<^verbatim>\<open>f_now = 16 / 25\<close> is not below
  \<^verbatim>\<open>f_min = 0\<close>. The one further evaluation of the objective is at \<open>[9 / 10]\<close>, the
  midpoint of the moved buffer \<open>[1]\<close> and \<^verbatim>\<open>x_now = [4 / 5]\<close>; its value \<open>81 / 100\<close> is
  not below \<^verbatim>\<open>f_now\<close> and the candidate stays. The midpoint of \<open>x_min = [0]\<close> and
  \<^verbatim>\<open>x_now\<close> is \<open>[2 / 5]\<close>, where the objective is \<open>4 / 25\<close>, below \<^verbatim>\<open>f_now\<close>.
\<close>

theorem line_search_probes_shifted_midpoint:
  "rd (snd (initial sq_opt 0 mem1)) (x_min (fst (initial sq_opt 0 mem1))) = [0]
   \<and> candidate linalg_1x1 sq_opt (initial sq_opt 0 mem1) =
       Inr (16 / 25, ex_locals [[5]] 0,
        \<lparr>heap = [[0], [1], [4 / 5], [0], [4], [1], [6]],
         evals = [[0], [1], [2], [4], [4 / 5]]\<rparr>)
   \<and> iteration linalg_1x1 sq_opt 0 (initial sq_opt 0 mem1) =
       Inr (Continue, ex_locals [[5]] (16 / 25),
        \<lparr>heap = [[0], [4 / 5], [4 / 5], [0], [4], [1], [6]],
         evals = [[0], [1], [2], [4], [4 / 5], [9 / 10]]\<rparr>)
   \<and> map2 (\<lambda>a b. 0.5 * (a + b)) [0] [4 / 5] = [2 / 5 :: real]
   \<and> sq [2 / 5] < 16 / 25"
  using sq_initial_x_min sq_candidate0 sq_iteration0 by (simp add: sq_def)

text \<open>
  C3. For the objective \<open>x\<^sup>2\<close> with \<open>x0 = [0]\<close>, a base step of \<open>1 / 4\<close>,
  \<^verbatim>\<open>tol_fun = 0\<close>, \<^verbatim>\<open>tol_x = 1 / 8\<close> and \<^verbatim>\<open>max_iter = 2\<close>, the first pass starts from
  \<open>x_min = [0]\<close> and \<^verbatim>\<open>f_min = 0\<close> and finds \<^verbatim>\<open>x_now = [3 / 16]\<close> and
  \<^verbatim>\<open>f_now = 9 / 256\<close>. None of the three conditions of the stopping rule holds for
  these values. The loop stops in this pass all the same, after one pass: the check
  compares \<^verbatim>\<open>x_now\<close> with the moved buffer \<open>[1 / 4]\<close>.
\<close>

theorem loop_stops_on_shifted_x_min:
  "rd (snd (initial sq_tol_opt 0 mem1)) (x_min (fst (initial sq_tol_opt 0 mem1))) = [0]
   \<and> f_min (fst (initial sq_tol_opt 0 mem1)) = 0
   \<and> candidate linalg_1x1 sq_tol_opt (initial sq_tol_opt 0 mem1) =
       Inr (9 / 256, ex_locals [[4]] 0,
        \<lparr>heap = [[0], [1 / 4], [3 / 16], [0], [3 / 4], [1 / 4], [5 / 4]],
         evals = [[0], [1 / 4], [1 / 2], [3 / 4], [3 / 16]]\<rparr>)
   \<and> \<not> spec_stop sq_tol_opt 0 (9 / 256) 0 [3 / 16] [0]
   \<and> run linalg_1x1 sq_tol_opt 0 mem1 =
       Inr (1, ex_locals [[4]] (9 / 256),
        \<lparr>heap = [[0], [3 / 16], [3 / 16], [0], [3 / 4], [1 / 4], [5 / 4]],
         evals = [[0], [1 / 4], [1 / 2], [3 / 4], [3 / 16]]\<rparr>)"
  using sq_tol_candidate0 sq_tol_run sq_tol_no_stop
  by (simp add: sq_tol_initial ex_locals_def rd_def)

section \<open>The line search and the commit\<close>

lemma candidate_valid:
  assumes "candidate la opt Ls = Inr (fn, L1, s2)" "valid Ls"
  shows "x_min L1 < length (heap s2)" "x_now L1 < length (heap s2)" "x_min L1 \<noteq> x_now L1"
  using candidate_fields[OF assms(1)] assms(2) by (cases Ls, simp add: valid_def)+

lemma iteration_split:
  assumes "iteration la opt it Ls = Inr (fl, Ls')" "candidate la opt Ls = Inr (fn, L1, s2)"
  shows "fl = Break \<and> converged opt it fn (L1, s2) = Inr True \<and> Ls' = commit fn (L1, s2)
       \<or> fl = Continue \<and> converged opt it fn (L1, s2) = Inr False
           \<and> Ls' = commit (fst (line_search opt fn (L1, s2)))
                      (L1, snd (line_search opt fn (L1, s2)))"
  using iteration_Inr[OF assms(1)] assms(2) by auto

text \<open>
  C4. A pass that does not leave the loop ends by copying \<^verbatim>\<open>x_now\<close> into \<^verbatim>\<open>x_min\<close> and
  \<^verbatim>\<open>f_now\<close> into \<^verbatim>\<open>f_min\<close>, whatever the line search has found and whether or not the
  value is below the old \<^verbatim>\<open>f_min\<close>. So the committed values can go up: for the objective
  \<open>x\<^sup>2\<close> started at its minimum 0 with a base step of 1, the first pass commits
  \<open>16 / 25\<close> after \<open>0\<close>.
\<close>

theorem commit_unconditional:
  assumes "loop_head la opt (initial opt x0 s) it Ls" "x0 < length (heap s)"
    and "iteration la opt it Ls = Inr (Continue, L', s')"
  shows "rd s' (x_min L') = rd s' (x_now L')
    \<and> (\<exists>fn L1 s2. candidate la opt Ls = Inr (fn, L1, s2)
          \<and> f_min L' = fst (line_search opt fn (L1, s2))
          \<and> rd s' (x_now L') = rd (snd (line_search opt fn (L1, s2))) (x_now L1))
    \<and> (\<exists>L s. iteration linalg_1x1 sq_opt 0 (initial sq_opt 0 mem1) = Inr (Continue, L, s)
          \<and> f_min (fst (initial sq_opt 0 mem1)) < f_min L)"
proof -
  have v: "valid Ls" using loop_head_valid[OF assms(1) valid_initial[OF assms(2)]] .
  obtain fn L1 s2 where c: "candidate la opt Ls = Inr (fn, L1, s2)"
    using iteration_Inr[OF assms(3)] by blast
  note cv = candidate_valid[OF c v]
  let ?ls = "line_search opt fn (L1, s2)"
  have r: "(L', s') = commit (fst ?ls) (L1, snd ?ls)"
    using iteration_split[OF assms(3) c] by simp
  have len: "length (heap (snd ?ls)) = length (heap s2)"
    using length_heap_line_search[of opt fn "(L1, s2)"] by simp
  have a: "rd s' (x_min L') = rd s' (x_now L')"
    using r cv len by (simp add: commit_def rd_wr_all)
  have b: "f_min L' = fst ?ls" "rd s' (x_now L') = rd (snd ?ls) (x_now L1)"
    using r cv len by (simp_all add: commit_def rd_wr_all)
  have e: "\<exists>L s. iteration linalg_1x1 sq_opt 0 (initial sq_opt 0 mem1) = Inr (Continue, L, s)
          \<and> f_min (fst (initial sq_opt 0 mem1)) < f_min L"
  proof -
    have "f_min (fst (initial sq_opt 0 mem1)) < f_min (ex_locals [[5]] (16 / 25))"
      by (simp add: sq_initial ex_locals_def)
    then show ?thesis using sq_iteration0 by blast
  qed
  show ?thesis using a b c e by blast
qed

theorem commit_unconditional_witness:
  "loop_head linalg_1x1 sq_opt (initial sq_opt 0 mem1) 0 (initial sq_opt 0 mem1)
   \<and> 0 < length (heap mem1)
   \<and> (\<exists>L' s'. iteration linalg_1x1 sq_opt 0 (initial sq_opt 0 mem1) = Inr (Continue, L', s')
        \<and> rd s' (x_min L') = rd s' (x_now L')
        \<and> (\<exists>fn L1 s2. candidate linalg_1x1 sq_opt (initial sq_opt 0 mem1) = Inr (fn, L1, s2)
              \<and> f_min L' = fst (line_search sq_opt fn (L1, s2))
              \<and> rd s' (x_now L') = rd (snd (line_search sq_opt fn (L1, s2))) (x_now L1)
              \<and> f_min L1 < fn \<and> f_min L1 < f_min L'))"
proof -
  let ?L' = "ex_locals [[5]] (16 / 25)"
  let ?s' = "\<lparr>heap = [[0], [4 / 5], [4 / 5], [0], [4], [1], [6]],
              evals = [[0], [1], [2], [4], [4 / 5], [9 / 10]]\<rparr>"
  note T = commit_unconditional[OF sq_head0 mem1_x0 sq_iteration0]
  have "f_min (ex_locals [[5]] 0) < 16 / 25" "f_min (ex_locals [[5]] 0) < f_min ?L'"
    by (simp_all add: ex_locals_def)
  then have "rd ?s' (x_min ?L') = rd ?s' (x_now ?L')
        \<and> (\<exists>fn L1 s2. candidate linalg_1x1 sq_opt (initial sq_opt 0 mem1) = Inr (fn, L1, s2)
              \<and> f_min ?L' = fst (line_search sq_opt fn (L1, s2))
              \<and> rd ?s' (x_now ?L') = rd (snd (line_search sq_opt fn (L1, s2))) (x_now L1)
              \<and> f_min L1 < fn \<and> f_min L1 < f_min ?L')"
    using T unfolding sq_candidate0 by blast
  then show ?thesis using sq_head0 mem1_x0 sq_iteration0 by blast
qed

section \<open>Where the loop stops\<close>

lemma run_break:
  assumes "1 \<le> max_iter opt" "run la opt x0 s = Inr (n, Ls'')"
  shows "\<exists>Lsf. loop_head la opt (initial opt x0 s) (n - 1) Lsf \<and> 1 \<le> n \<and> n \<le> max_iter opt
           \<and> iteration la opt (n - 1) Lsf = Inr (Break, Ls'')"
proof -
  have "0 < max_iter opt" using assms(1) by simp
  from iterate_break[OF assms(2)[unfolded run_def] this loop_head.first]
  show ?thesis by force
qed

section \<open>The caller's vector\<close>

lemma initial_below:
  assumes "x0 < length (heap s)" "b < length (heap s)"
  shows "rd (snd (initial opt x0 s)) b = rd s b"
  using assms by (simp add: initial_eq rd_def nth_append)

lemma initial_x_min:
  assumes "x0 < length (heap s)"
  shows "x_min (fst (initial opt x0 s)) = length (heap s)"
    and "rd (snd (initial opt x0 s)) (length (heap s)) = rd s x0"
  using assms by (simp_all add: initial_eq rd_def nth_append)

lemma initial_addresses:
  assumes "x0 < length (heap s)" "b < length (heap s)"
  shows "b \<noteq> x_min (fst (initial opt x0 s))" "b \<noteq> x_now (fst (initial opt x0 s))"
    "b \<noteq> x_hess (fst (initial opt x0 s))" "b \<noteq> grad (fst (initial opt x0 s))"
    "b \<noteq> grad_hess (fst (initial opt x0 s))"
  using assms by (simp_all add: initial_eq)

text \<open>
  C10. A call that returns gives back the buffer it allocated first, at an address that
  was not in use on entry, so it is not the caller's \<open>x0\<close>. That buffer received the
  contents of \<open>x0\<close> before the loop, and on return every array that existed on entry,
  \<open>x0\<close> among them, holds what it held on entry.
\<close>

theorem x0_not_mutated:
  assumes "x0 < length (heap s)" "newton_raphson la opt x0 s = Inr (a, s')"
  shows "a = length (heap s) \<and> a \<noteq> x0
    \<and> rd (snd (initial opt x0 s)) a = rd s x0
    \<and> rd s' x0 = rd s x0
    \<and> (\<forall>b < length (heap s). rd s' b = rd s b)"
proof -
  let ?I = "initial opt x0 s"
  obtain n L where r: "run la opt x0 s = Inr (n, L, s')" and a: "a = x_min L"
    using assms(2) by (auto simp: newton_raphson_def split: sum.splits)
  have "x_min L = length (heap s) \<and> (\<forall>b < length (heap s). rd s' b = rd s b)"
  proof (cases "0 < max_iter opt")
    case False
    then have "(L, s') = ?I"
      using r by (simp add: run_def iterate.simps)
    then have "L = fst ?I" "s' = snd ?I" by (metis fst_conv, metis snd_conv)
    then show ?thesis
      using initial_x_min(1)[OF assms(1)] initial_below[OF assms(1)] by simp
  next
    case True
    then obtain Lsf where h: "loop_head la opt ?I (n - 1) Lsf"
      and b: "iteration la opt (n - 1) Lsf = Inr (Break, L, s')"
      using run_break[OF _ r] by force
    note hf = loop_head_fields[OF h]
    note bf = iteration_fields[OF b]
    have x: "x_min L = length (heap s)"
      using hf bf(1) initial_x_min(1)[OF assms(1)] by simp
    have "rd s' b = rd s b" if "b < length (heap s)" for b
    proof -
      note ia = initial_addresses[OF assms(1) that]
      have "rd (snd Lsf) b = rd (snd ?I) b"
        by (rule loop_head_other[OF h ia])
      moreover have "rd s' b = rd (snd Lsf) b"
        using iteration_other[OF b, of b] ia hf by simp
      ultimately show ?thesis using initial_below[OF assms(1) that] by simp
    qed
    then show ?thesis using x by simp
  qed
  then show ?thesis
    using a assms(1) initial_x_min(2)[OF assms(1)] by auto
qed

theorem x0_not_mutated_witness:
  "0 < length (heap mem1)
   \<and> (\<exists>a s'. newton_raphson linalg_1x1 sq_opt 0 mem1 = Inr (a, s')
        \<and> a = length (heap mem1) \<and> a \<noteq> 0
        \<and> rd (snd (initial sq_opt 0 mem1)) a = rd mem1 0
        \<and> rd s' 0 = rd mem1 0 \<and> rd s' 0 = [0] \<and> rd s' a = [252 / 205])"
proof -
  let ?s' = "\<lparr>heap = [[0], [252 / 205], [252 / 205], [0], [36 / 5], [13 / 5], [54 / 5]],
       evals = [[0], [1], [2], [4], [4 / 5], [9 / 10], [9 / 5], [18 / 5], [36 / 5], [252 / 205]]\<rparr>"
  note T = x0_not_mutated[OF mem1_x0 sq_newton_raphson]
  have l: "length (heap mem1) = 1" by (simp add: mem1_def)
  have v: "rd mem1 0 = [0]" "rd ?s' 1 = [252 / 205]" by (simp_all add: rd_def mem1_def)
  have "newton_raphson linalg_1x1 sq_opt 0 mem1 = Inr (1, ?s')
        \<and> (1::nat) = length (heap mem1) \<and> (1::nat) \<noteq> 0
        \<and> rd (snd (initial sq_opt 0 mem1)) 1 = rd mem1 0
        \<and> rd ?s' 0 = rd mem1 0 \<and> rd ?s' 0 = [0] \<and> rd ?s' 1 = [252 / 205]"
    using T v sq_newton_raphson unfolding l by simp
  then have "\<exists>a s'. newton_raphson linalg_1x1 sq_opt 0 mem1 = Inr (a, s')
        \<and> a = length (heap mem1) \<and> a \<noteq> 0
        \<and> rd (snd (initial sq_opt 0 mem1)) a = rd mem1 0
        \<and> rd s' 0 = rd mem1 0 \<and> rd s' 0 = [0] \<and> rd s' a = [252 / 205]"
    by (intro exI)
  then show ?thesis using mem1_x0 by blast
qed

section \<open>The sizes of the buffers\<close>

lemma fold_invariant:
  assumes "\<And>i t. P t \<Longrightarrow> P (body i t)" "P s"
  shows "P (fold body js s)"
  using assms(2) by (induction js arbitrary: s) (simp_all add: assms(1))

lemma length_matvec [simp]: "length (matvec M v) = length M"
  by (simp add: matvec_def)

lemma num_hess_length_xh:
  assumes "xh < length (heap s)" "xh \<noteq> x" "gh \<noteq> x" "length (rd s xh) = length (rd s x)"
  shows "length (rd (snd (num_hess f x h g H xg xh gh s)) xh) = length (rd s x)"
proof -
  let ?P = "\<lambda>Hs :: matrix \<times> mem. xh < length (heap (snd Hs)) \<and> rd (snd Hs) x = rd s x
                  \<and> length (rd (snd Hs) xh) = length (rd s x)"
  have "?P (fold (num_hess_body f x h g xg xh gh) [0..<length (rd s x)] (H, s))"
  proof (rule fold_invariant)
    show "?P (H, s)" using assms by simp
  next
    fix i Hs assume p: "?P Hs"
    have "rd (snd (num_hess_body f x h g xg xh gh i Hs)) x = rd (snd Hs) x"
      using assms(2,3) by (simp add: num_hess_body_other)
    moreover have "length (rd (snd (num_hess_body f x h g xg xh gh i Hs)) xh)
                     = length (rd (snd Hs) x)"
      using p by (simp add: length_rd_num_hess_body_xh)
    ultimately show "?P (num_hess_body f x h g xg xh gh i Hs)" using p by simp
  qed
  then show ?thesis by (simp add: num_hess_def)
qed

lemma num_hess_length:
  assumes "xh < length (heap s)" "gh < length (heap s)"
    and "xh \<noteq> x" "xh \<noteq> g" "gh \<noteq> x" "gh \<noteq> g" "gh \<noteq> xh"
    and "length (rd s g) = length (rd s x)" "length (rd s gh) = length (rd s x)"
    and "length H = length (rd s x)"
  shows "length (fst (num_hess f x h g H xg xh gh s)) = length (rd s x)"
proof -
  let ?c = "spec_hess_column f h (rd s x) (rd s g)"
  let ?n = "length (rd s x)"
  have H': "fst (num_hess f x h g H xg xh gh s) = fold (\<lambda>i. set_col i (?c i)) [0..<?n] H"
    unfolding num_hess_def by (rule num_hess_prefix[OF assms(1-7,9)])
  have len: "\<And>i. i < ?n \<Longrightarrow> length (?c i) = length H"
    using assms(8,10) by simp
  show ?thesis
    using fold_set_col[OF len, of ?n] assms(10) by (simp add: H')
qed

lemma dims_initial:
  "x0 < length (heap s) \<Longrightarrow> dims (length (rd s x0)) (initial opt x0 s)"
  by (simp add: initial_eq dims_def rd_def nth_append numeral_eq_Suc)

lemma dims_estimate:
  assumes "valid Ls" "dims n Ls"
  shows "dims n (estimate opt Ls)"
proof (cases Ls)
  case (Pair L s)
  let ?s1 = "num_grad (obj opt) (x_min L) (grad_step opt) (f_min L) (grad L) (x_grad L) s"
  let ?nh = "num_hess (obj opt) (x_min L) (grad_step opt) (grad L) (hess L)
               (x_grad L) (x_hess L) (grad_hess L) ?s1"
  have e: "estimate opt Ls = (L\<lparr>hess := fst ?nh\<rparr>, snd ?nh)"
    using Pair by (simp add: estimate_def Let_def split_beta)
  have v: "distinct [x_min L, x_now L, x_hess L, grad L, grad_hess L]"
    "x_min L < length (heap s)" "x_now L < length (heap s)" "x_hess L < length (heap s)"
    "grad L < length (heap s)" "grad_hess L < length (heap s)"
    using assms(1) Pair by (simp_all add: valid_def)
  have d: "length (rd s (x_min L)) = n" "length (rd s (x_now L)) = n"
    "length (rd s (x_hess L)) = n" "length (rd s (grad L)) = n"
    "length (rd s (grad_hess L)) = n" "length (hess L) = n"
    using assms(2) Pair by (simp_all add: dims_def)
  have ne: "x_hess L \<noteq> x_min L" "x_hess L \<noteq> grad L" "grad_hess L \<noteq> x_min L"
    "grad_hess L \<noteq> grad L" "grad_hess L \<noteq> x_hess L" "x_min L \<noteq> x_hess L"
    "x_now L \<noteq> x_hess L" "grad L \<noteq> x_hess L"
    using v(1) by auto
  have other: "\<And>a. a \<noteq> x_hess L \<Longrightarrow> length (rd (snd ?nh) a) = length (rd s a)"
    by (simp add: length_rd_num_hess)
  have xh: "length (rd (snd ?nh) (x_hess L)) = n"
    using num_hess_length_xh[of "x_hess L" ?s1 "x_min L" "grad_hess L"] v(2-) d ne by simp
  have hl: "length (fst ?nh) = n"
    using num_hess_length[of "x_hess L" ?s1 "grad_hess L" "x_min L" "grad L" "hess L"] v(2-) d ne
    by simp
  show ?thesis
    unfolding e using d other xh hl ne by (simp add: dims_def)
qed

lemma valid_same:
  assumes "valid (L, s)" "length (heap s') = length (heap s)"
    and "x_min L' = x_min L" "x_now L' = x_now L" "x_hess L' = x_hess L"
    and "grad L' = grad L" "grad_hess L' = grad_hess L"
  shows "valid (L', s')"
  using assms by (simp add: valid_def)

lemma valid_estimate: "valid Ls \<Longrightarrow> valid (estimate opt Ls)"
  using valid_same[of "fst Ls" "snd Ls" "snd (estimate opt Ls)" "fst (estimate opt Ls)"]
  by simp

lemma dims_update:
  assumes "valid (L, s)" "dims n (L, s)" "length d = n"
  shows "dims n (L, snd (update opt d (L, s)))"
  using assms by (simp add: dims_def valid_def rd_update)

lemma dims_line_search:
  assumes "valid (L, s)" "dims n (L, s)"
  shows "dims n (L, snd (line_search opt fn (L, s)))"
  using assms by (simp add: dims_def valid_def line_search_def Let_def rd_wr_all)

lemma dims_commit:
  assumes "valid (L, s)" "dims n (L, s)"
  shows "dims n (commit fn (L, s))"
  using assms by (simp add: dims_def valid_def commit_def rd_wr_all)

lemma converged_total:
  assumes "dims n (L, s)"
  shows "(\<exists>b. converged opt it fn (L, s) = Inr b)
       \<or> n = 0 \<and> converged opt it fn (L, s) = Inl ValueError"
proof -
  define vs where "vs = map abs (map2 (-) (rd s (x_now L)) (rd s (x_min L)))"
  have c: "converged opt it fn (L, s) =
     (if \<bar>fn - f_min L\<bar> < tol_fun opt then Inr True
      else case amax vs of
             Inl e \<Rightarrow> Inl e
           | Inr m \<Rightarrow> Inr (m < tol_x opt \<or> it \<ge> max_iter opt - 1))"
    unfolding vs_def converged_def by simp
  have l: "length vs = n" using assms by (simp add: vs_def dims_def)
  show ?thesis
  proof (cases vs)
    case Nil
    then show ?thesis using l by (auto simp: c)
  next
    case (Cons v ws)
    then show ?thesis by (auto simp: c)
  qed
qed

text \<open>
  A pass through the loop body ends in the next state, or with the error of the inverse,
  or, on vectors of size zero, with the error of \<^verbatim>\<open>np.amax\<close>.
\<close>

lemma iteration_total:
  assumes "valid Ls" "dims n Ls"
    and "\<forall>M Mi. length M = n \<longrightarrow> linalg_inv la M = Inr Mi \<longrightarrow> length Mi = n"
  shows "(\<exists>fl Ls'. iteration la opt it Ls = Inr (fl, Ls') \<and> dims n Ls')
       \<or> (\<exists>e M. iteration la opt it Ls = Inl e \<and> linalg_inv la M = Inl e)
       \<or> n = 0 \<and> iteration la opt it Ls = Inl ValueError"
proof -
  obtain L1 s1 where e: "estimate opt Ls = (L1, s1)" by (cases "estimate opt Ls")
  have v1: "valid (L1, s1)" using valid_estimate[OF assms(1), of opt] e by simp
  have d1: "dims n (L1, s1)" using dims_estimate[OF assms(1,2), of opt] e by simp
  have hl: "length (hess L1) = n" using d1 by (simp add: dims_def)
  show ?thesis
  proof (cases "direction la (hess L1) (rd s1 (grad L1))")
    case (Inl err)
    then have "iteration la opt it Ls = Inl err"
      by (simp add: iteration_def candidate_def e)
    then show ?thesis using direction_Inl[OF Inl] by blast
  next
    case (Inr d)
    obtain hinv where h: "linalg_inv la (hess L1) = Inr hinv"
      "d = map (\<lambda>v. - sgn (linalg_det la (hess L1)) * v) (matvec hinv (rd s1 (grad L1)))"
      using direction_Inr[OF Inr] by blast
    have "length hinv = n" using assms(3) hl h(1) by blast
    then have ld: "length d = n" using h(2) by simp
    obtain fn s2 where u: "update opt d (L1, s1) = (fn, s2)" by (cases "update opt d (L1, s1)")
    have c: "candidate la opt Ls = Inr (fn, L1, s2)"
      by (simp add: candidate_def e Inr u)
    have s2: "s2 = snd (update opt d (L1, s1))" using u by simp
    have v2: "valid (L1, s2)"
      using valid_same[OF v1, of s2 L1] by (simp add: s2)
    have d2: "dims n (L1, s2)" unfolding s2 by (rule dims_update[OF v1 d1 ld])
    from converged_total[OF d2, of opt it fn] show ?thesis
    proof
      assume "\<exists>b. converged opt it fn (L1, s2) = Inr b"
      then obtain b where b: "converged opt it fn (L1, s2) = Inr b" by blast
      show ?thesis
      proof (cases b)
        case True
        then have "iteration la opt it Ls = Inr (Break, commit fn (L1, s2))"
          using b by (simp add: iteration_def c)
        then show ?thesis using dims_commit[OF v2 d2] by blast
      next
        case False
        let ?ls = "line_search opt fn (L1, s2)"
        have i: "iteration la opt it Ls = Inr (Continue, commit (fst ?ls) (L1, snd ?ls))"
          using b False by (simp add: iteration_def c split_beta)
        have v3: "valid (L1, snd ?ls)"
          using valid_same[OF v2, of "snd ?ls" L1] length_heap_line_search[of opt fn "(L1, s2)"]
          by simp
        have d3: "dims n (L1, snd ?ls)" by (rule dims_line_search[OF v2 d2])
        show ?thesis using i dims_commit[OF v3 d3] by blast
      qed
    next
      assume "n = 0 \<and> converged opt it fn (L1, s2) = Inl ValueError"
      then show ?thesis by (simp add: iteration_def c)
    qed
  qed
qed

section \<open>Termination and errors\<close>

lemma iterate_total:
  assumes "\<forall>M Mi. length M = n \<longrightarrow> linalg_inv la M = Inr Mi \<longrightarrow> length Mi = n"
    and "it < max_iter opt" "valid Ls" "dims n Ls"
  shows "(\<exists>m Ls'. iterate la opt it Ls = Inr (m, Ls') \<and> it < m \<and> m \<le> max_iter opt
            \<and> dims n Ls')
       \<or> (\<exists>e M. iterate la opt it Ls = Inl e \<and> linalg_inv la M = Inl e)
       \<or> n = 0 \<and> iterate la opt it Ls = Inl ValueError"
  using assms
proof (induction la opt it Ls rule: iterate.induct)
  case (1 la opt it Ls)
  have unf: "iterate la opt it Ls =
        (case iteration la opt it Ls of
           Inl e \<Rightarrow> Inl e
         | Inr (Break, Ls') \<Rightarrow> Inr (it + 1, Ls')
         | Inr (Continue, Ls') \<Rightarrow> iterate la opt (it + 1) Ls')"
    using "1.prems"(2) by (subst iterate.simps) simp
  from iteration_total[OF "1.prems"(3,4,1), where opt = opt and it = it]
  consider (ok) fl Ls' where "iteration la opt it Ls = Inr (fl, Ls')" "dims n Ls'"
    | (inv) e M where "iteration la opt it Ls = Inl e" "linalg_inv la M = Inl e"
    | (amax) "n = 0" "iteration la opt it Ls = Inl ValueError"
    by blast
  then show ?case
  proof cases
    case ok
    show ?thesis
    proof (cases fl)
      case Break
      then have "iterate la opt it Ls = Inr (it + 1, Ls')"
        using ok(1) by (simp add: unf)
      then show ?thesis using "1.prems"(2) ok(2) by simp
    next
      case Continue
      have r: "iterate la opt it Ls = iterate la opt (it + 1) Ls'"
        using ok(1) Continue by (simp add: unf)
      have lt: "it + 1 < max_iter opt"
        using iteration_Continue_counter[of la opt it Ls Ls'] ok(1) Continue by simp
      have v: "valid Ls'" using valid_iteration[OF ok(1) "1.prems"(3)] .
      have "(\<exists>m Ls''. iterate la opt (it + 1) Ls' = Inr (m, Ls'') \<and> it + 1 < m \<and> m \<le> max_iter opt
            \<and> dims n Ls'')
       \<or> (\<exists>e M. iterate la opt (it + 1) Ls' = Inl e \<and> linalg_inv la M = Inl e)
       \<or> n = 0 \<and> iterate la opt (it + 1) Ls' = Inl ValueError"
        using "1.IH"[OF "1.prems"(2) ok(1)[unfolded Continue] refl refl "1.prems"(1) lt v ok(2)] .
      then show ?thesis unfolding r by force
    qed
  next
    case inv
    then show ?thesis by (auto simp: unf)
  next
    case amax
    then show ?thesis by (simp add: unf)
  qed
qed


text \<open>
  C8. With \<^verbatim>\<open>max_iter = k\<close> for \<open>1 \<le> k < 2\<^sup>6\<^sup>3\<close>, a positive base step and an
  inverse that keeps the size of the matrix, a call ends in one of three ways. It returns a vector of the size of \<open>x0\<close> after at least one
  and at most \<open>k\<close> passes through the loop body; or it ends with an error that
  \<^verbatim>\<open>np.linalg.inv\<close> has raised; or, when \<open>x0\<close> has size zero, it ends with the error
  of \<^verbatim>\<open>np.amax\<close>. The optimizer has no error of its own.
\<close>

theorem newton_raphson_returns_or_propagates:
  assumes "1 \<le> max_iter opt" "x0 < length (heap s)"
    and "\<forall>M Mi. length M = length (rd s x0) \<longrightarrow> linalg_inv la M = Inr Mi
           \<longrightarrow> length Mi = length (rd s x0)"
    and "max_iter opt < 2 ^ 63" "0 < grad_step opt"
  shows "(\<exists>n L s'. run la opt x0 s = Inr (n, L, s')
            \<and> newton_raphson la opt x0 s = Inr (x_min L, s')
            \<and> 1 \<le> n \<and> n \<le> max_iter opt
            \<and> length (rd s' (x_min L)) = length (rd s x0))
       \<or> (\<exists>e M. newton_raphson la opt x0 s = Inl e \<and> linalg_inv la M = Inl e)
       \<or> rd s x0 = [] \<and> newton_raphson la opt x0 s = Inl ValueError"
proof -
  have lt: "0 < max_iter opt" using assms(1) by simp
  from iterate_total[OF assms(3) lt valid_initial[OF assms(2)] dims_initial[OF assms(2)],
      where opt1 = opt]
  consider (ok) m Ls' where "run la opt x0 s = Inr (m, Ls')" "0 < m" "m \<le> max_iter opt"
      "dims (length (rd s x0)) Ls'"
    | (inv) e M where "run la opt x0 s = Inl e" "linalg_inv la M = Inl e"
    | (amax) "length (rd s x0) = 0" "run la opt x0 s = Inl ValueError"
    unfolding run_def by blast
  then show ?thesis
  proof cases
    case ok
    obtain L s' where Ls': "Ls' = (L, s')" by (cases Ls')
    have "length (rd s' (x_min L)) = length (rd s x0)"
      using ok(4) by (simp add: Ls' dims_def)
    moreover have "newton_raphson la opt x0 s = Inr (x_min L, s')"
      using ok(1) by (simp add: newton_raphson_def Ls')
    ultimately show ?thesis using ok(1-3) Ls' by auto
  next
    case inv
    then have "newton_raphson la opt x0 s = Inl e" by (simp add: newton_raphson_def)
    then show ?thesis using inv(2) by blast
  next
    case amax
    then have "newton_raphson la opt x0 s = Inl ValueError" by (simp add: newton_raphson_def)
    then show ?thesis using amax(1) by simp
  qed
qed

theorem newton_raphson_returns_or_propagates_witness:
  "1 \<le> max_iter sq_opt \<and> max_iter sq_opt < 2 ^ 63 \<and> 0 < grad_step sq_opt
   \<and> 0 < length (heap mem1)
   \<and> \<not> (\<exists>M Mi. length M = length (rd mem1 0) \<and> linalg_inv linalg_1x1 M = Inr Mi
            \<and> length Mi \<noteq> length (rd mem1 0))
   \<and> (\<exists>n L s'. run linalg_1x1 sq_opt 0 mem1 = Inr (n, L, s')
         \<and> newton_raphson linalg_1x1 sq_opt 0 mem1 = Inr (x_min L, s')
         \<and> 1 \<le> n \<and> n \<le> max_iter sq_opt
         \<and> length (rd s' (x_min L)) = length (rd mem1 0))"
proof -
  have m: "1 \<le> max_iter sq_opt" by (simp add: sq_max_iter)
  have sh: "\<forall>M Mi. length M = length (rd mem1 0) \<longrightarrow> linalg_inv linalg_1x1 M = Inr Mi
           \<longrightarrow> length Mi = length (rd mem1 0)"
    by (auto simp: linalg_1x1_def mem1_def rd_def split: if_splits)
  have c: "max_iter sq_opt < 2 ^ 63" "0 < grad_step sq_opt"
    by (simp_all add: sq_opt_def create_optimizer_def)
  note T = newton_raphson_returns_or_propagates[OF m mem1_x0 sh c]
  have "\<exists>n L s'. run linalg_1x1 sq_opt 0 mem1 = Inr (n, L, s')
         \<and> newton_raphson linalg_1x1 sq_opt 0 mem1 = Inr (x_min L, s')
         \<and> 1 \<le> n \<and> n \<le> max_iter sq_opt
         \<and> length (rd s' (x_min L)) = length (rd mem1 0)"
    using T sq_newton_raphson by auto
  then show ?thesis using m mem1_x0 sh c by blast
qed

text \<open>
  With the constant objective the gradient and the Hessian estimate are zero, the inverse
  of the Hessian fails, and the call ends with that error: it returns no vector.
\<close>

theorem newton_raphson_raises_on_constant_objective:
  "1 \<le> max_iter const_opt \<and> max_iter const_opt < 2 ^ 63 \<and> 0 < grad_step const_opt
   \<and> 0 < length (heap mem1)
   \<and> newton_raphson linalg_1x1 const_opt 0 mem1 = Inl LinAlgError
   \<and> \<not> (\<exists>a s'. newton_raphson linalg_1x1 const_opt 0 mem1 = Inr (a, s'))"
proof -
  have "1 \<le> max_iter const_opt" "max_iter const_opt < 2 ^ 63" "0 < grad_step const_opt"
    by (simp_all add: const_opt_def create_optimizer_def)
  then show ?thesis using mem1_x0 by (simp add: const_newton_raphson)
qed

end
